theory Spec2Isabelle
  imports Main "HOL-Library.Sublist"
begin

section \<open>The backtracking parser (codeNew.py and code.py)\<close>

text \<open>
  Both parser files hold the same recursive-descent evaluator \<open>parse_symbol\<close> over a
  grammar table; they differ in the table and in the wording of the trace lines. The
  table is a Python dict literal whose order of alternatives matters, so it is an
  association list from a nonterminal's name to its ordered productions; a symbol
  that is no key of the table is a terminal.
\<close>

type_synonym symbol = string
type_synonym production = "symbol list"
type_synonym grammar = "(symbol \<times> production list) list"

text \<open>
  The trace is a Python list of formatted lines. Each line is one of four formats;
  an event keeps the values that the format string interpolates:
  \<^item> \<open>Matched\<close>: the line "Matched 'sym'" (terminal matched);
  \<^item> \<open>Expected\<close>: the line "Expected 'sym', got 'tok'" with \<open>None\<close> for EOF;
  \<^item> \<open>Expanding\<close>: "Expanding sym -> prod";
  \<^item> \<open>Backtrack\<close>: "Backtrack on sym -> prod".
\<close>

datatype event =
    Matched symbol
  | Expected symbol "string option"
  | Expanding symbol production
  | Backtrack symbol production

type_synonym trace = "event list"

text \<open>
  \<open>parse_symbol\<close> recurses through the grammar and does not terminate on a grammar
  with a cycle that consumes no token, so the model carries fuel: the number of nested
  \<open>parse_symbol\<close> calls still allowed. \<open>None\<close> means the fuel ran out. The result of
  a call that returns is the pair \<open>(ok, position)\<close> of the source together with the
  trace list after the call's appends.

  \<open>parse_seq\<close> is the inner loop \<open>for s2 in prod\<close> (with its \<open>break\<close>),
  \<open>parse_prods\<close> the outer loop \<open>for prod in GRAMMAR[sym]\<close>. The fuel falls at the
  step from a nonterminal to its productions; the two loops recurse on their lists.
\<close>

function parse_symbol :: "nat \<Rightarrow> grammar \<Rightarrow> symbol \<Rightarrow> string list \<Rightarrow> nat \<Rightarrow> trace
      \<Rightarrow> (bool \<times> nat \<times> trace) option"
and parse_prods :: "nat \<Rightarrow> grammar \<Rightarrow> symbol \<Rightarrow> string list \<Rightarrow> nat \<Rightarrow> production list \<Rightarrow> trace
      \<Rightarrow> (bool \<times> nat \<times> trace) option"
and parse_seq :: "nat \<Rightarrow> grammar \<Rightarrow> string list \<Rightarrow> production \<Rightarrow> nat \<Rightarrow> trace
      \<Rightarrow> (bool \<times> nat \<times> trace) option"
where
  "parse_symbol 0 g symb tokens i tr = None"
| "parse_symbol (Suc n) g symb tokens i tr =
     (case map_of g symb of
        None \<Rightarrow>
          (if i < length tokens \<and> tokens ! i = symb
           then Some (True, i + 1, tr @ [Matched symb])
           else Some (False, i,
                  tr @ [Expected symb (if i < length tokens then Some (tokens ! i) else None)]))
      | Some prods \<Rightarrow> parse_prods n g symb tokens i prods tr)"
| "parse_prods n g symb tokens i [] tr = Some (False, i, tr)"
| "parse_prods n g symb tokens i (prd # rest) tr =
     (case parse_seq n g tokens prd i (tr @ [Expanding symb prd]) of
        None \<Rightarrow> None
      | Some (ok, j, tr') \<Rightarrow>
          (if ok then Some (True, j, tr')
           else parse_prods n g symb tokens i rest (tr' @ [Backtrack symb prd])))"
| "parse_seq n g tokens [] j tr = Some (True, j, tr)"
| "parse_seq n g tokens (s2 # ss) j tr =
     (case parse_symbol n g s2 tokens j tr of
        None \<Rightarrow> None
      | Some (ok, j', tr') \<Rightarrow>
          (if \<not> ok then Some (False, j', tr') else parse_seq n g tokens ss j' tr'))"
  by pat_completeness auto
termination
  by (relation "inv_image (less_than <*lex*> less_than <*lex*> less_than) (\<lambda>x. case x of
        Inl (n, g, s, t, i, tr) \<Rightarrow> (n, 0::nat, 0::nat)
      | Inr (Inl (n, g, s, t, i, ps, tr)) \<Rightarrow> (n, 2, length ps)
      | Inr (Inr (n, g, t, p, i, tr)) \<Rightarrow> (n, 1, length p))") auto

text \<open>The grammar table of codeNew.py.\<close>

definition GRAMMAR :: grammar where
  "GRAMMAR =
   [(''COMMAND'', [[''ACTION''], [''SCHEDULE'']]),
    (''ACTION'', [[''VERB'', ''SWITCH'', ''DEVICE'']]),
    (''VERB'', [[''turn''], [''switch'']]),
    (''SWITCH'', [[''on''], [''off'']]),
    (''DEVICE'', [[''the'', ''ROOM'', ''DEVICE_NP''], [''DEVICE_NP'', ''in'', ''ROOM''],
                  [''DEVICE_NP'']]),
    (''ROOM'', [[''living'', ''room''], [''kitchen''], [''bedroom''], [''bathroom'']]),
    (''DEVICE_NP'', [[''light''], [''lights''], [''fan''], [''heater''],
                     [''air'', ''conditioner'']]),
    (''SCHEDULE'', [[''REMIND_PHRASE'', ''TASK'', ''TIME_PHRASE'']]),
    (''REMIND_PHRASE'', [[''remind'', ''me'', ''to''], [''set'', ''alarm'', ''for''],
                         [''schedule'', ''a'']]),
    (''TASK'', [[''take'', ''medicine''], [''water'', ''the'', ''plants''],
                [''meeting'', ''with'', ''team''], [''read'', ''the'', ''book'']]),
    (''TIME_PHRASE'', [[''at'', ''TIME''], [''after'', ''DURATION''],
                       [''tomorrow'', ''at'', ''TIME'']]),
    (''TIME'', [[''6'', ''pm''], [''7'', ''am''], [''3'', ''pm''], [''9'', ''am'']]),
    (''DURATION'', [[''1'', ''hour''], [''2'', ''hours''], [''30'', ''minutes'']])]"

text \<open>The grammar table of code.py; \<open>LOCATION_OPT\<close> has an empty production.\<close>

definition grammar_code :: grammar where
  "grammar_code =
   [(''COMMAND'', [[''ACTION'']]),
    (''ACTION'', [[''VERB'', ''SWITCH'', ''TARGET'']]),
    (''VERB'', [[''turn''], [''switch'']]),
    (''SWITCH'', [[''on''], [''off'']]),
    (''TARGET'', [[''ALL_PHRASE''], [''DEVICE_PHRASE''], [''DEVICE_IN_ROOM'']]),
    (''ALL_PHRASE'', [[''all'', ''DEVICE_PLURAL'']]),
    (''DEVICE_PHRASE'', [[''LOCATION_OPT'', ''DEVICE_NP'']]),
    (''DEVICE_IN_ROOM'', [[''DEVICE_NP'', ''in'', ''ROOM'']]),
    (''LOCATION_OPT'', [[''the'', ''ROOM''], [''in'', ''ROOM''], [''the''], []]),
    (''DEVICE_NP'', [[''lights''], [''light''], [''fan''], [''fans''], [''heater''],
                     [''air'', ''conditioner''], [''conditioner'']]),
    (''DEVICE_PLURAL'', [[''lights''], [''fans'']]),
    (''ROOM'', [[''living'', ''room''], [''kitchen''], [''bedroom''], [''bathroom'']])]"

text \<open>
  \<open>parse_command\<close> of codeNew.py and \<open>parse\<close> of code.py: a fresh trace, the start
  symbol from position 0, and the verdict \<open>ok and idx == len(tokens)\<close>. The grammar is
  a parameter, so that one definition serves both files; \<open>parse_result\<close> keeps the
  index as well, which the source computes and drops.
\<close>

definition parse_result :: "nat \<Rightarrow> grammar \<Rightarrow> string list \<Rightarrow> (bool \<times> nat \<times> trace) option" where
  "parse_result n g tokens = parse_symbol n g ''COMMAND'' tokens 0 []"

definition parse_with :: "nat \<Rightarrow> grammar \<Rightarrow> string list \<Rightarrow> (bool \<times> trace) option" where
  "parse_with n g tokens =
     (case parse_symbol n g ''COMMAND'' tokens 0 [] of
        None \<Rightarrow> None
      | Some (ok, idx, tr) \<Rightarrow> Some (ok \<and> idx = length tokens, tr))"

definition parse_command :: "nat \<Rightarrow> string list \<Rightarrow> (bool \<times> trace) option" where
  "parse_command n tokens = parse_with n GRAMMAR tokens"

definition parse :: "nat \<Rightarrow> string list \<Rightarrow> bool option" where
  "parse n tokens = map_option fst (parse_with n grammar_code tokens)"

text \<open>
  A grammar is ranked by \<open>r\<close> when every symbol on a right-hand side has a smaller rank
  than the nonterminal it belongs to; such a grammar has no cycle, and fuel above the
  rank of the start symbol is enough. \<open>ranked\<close> is checked by evaluation on a table.
\<close>

definition ranked :: "grammar \<Rightarrow> (symbol \<Rightarrow> nat) \<Rightarrow> bool" where
  "ranked g r = list_all (\<lambda>(s, ps). list_all (list_all (\<lambda>s2. r s2 < r s)) ps) g"

text \<open>The depth of a symbol in each of the two tables: 0 for a terminal.\<close>

definition rank_GRAMMAR :: "symbol \<Rightarrow> nat" where
  "rank_GRAMMAR s =
     (if s = ''COMMAND'' then 4
      else if s = ''ACTION'' \<or> s = ''SCHEDULE'' then 3
      else if s = ''DEVICE'' \<or> s = ''TIME_PHRASE'' then 2
      else if s \<in> set [''VERB'', ''SWITCH'', ''ROOM'', ''DEVICE_NP'', ''REMIND_PHRASE'',
                        ''TASK'', ''TIME'', ''DURATION''] then 1
      else 0)"

definition rank_code :: "symbol \<Rightarrow> nat" where
  "rank_code s =
     (if s = ''COMMAND'' then 6
      else if s = ''ACTION'' then 5
      else if s = ''TARGET'' then 4
      else if s = ''ALL_PHRASE'' \<or> s = ''DEVICE_PHRASE'' \<or> s = ''DEVICE_IN_ROOM'' then 3
      else if s = ''LOCATION_OPT'' then 2
      else if s \<in> set [''VERB'', ''SWITCH'', ''DEVICE_NP'', ''DEVICE_PLURAL'', ''ROOM''] then 1
      else 0)"

text \<open>The terminal names of the \<open>Matched\<close> events of a trace, in order.\<close>

fun matched :: "trace \<Rightarrow> string list" where
  "matched [] = []"
| "matched (Matched s # es) = s # matched es"
| "matched (_ # es) = matched es"

text \<open>
  A call appends to the list it is given: \<open>pre_trace tr0\<close> puts the lines \<open>tr0\<close> that
  were in the list before the call in front of a result computed from an empty list.
\<close>

definition pre_trace :: "trace \<Rightarrow> bool \<times> nat \<times> trace \<Rightarrow> bool \<times> nat \<times> trace" where
  "pre_trace tr0 = (\<lambda>(b, k, t). (b, k, tr0 @ t))"

text \<open>
  What a test of the trace reads off a run of \<open>parse_command\<close>: the verdict and the
  terminals of the \<open>Matched\<close> lines in order.
\<close>

definition matched_of_run :: "nat \<Rightarrow> string list \<Rightarrow> (bool \<times> string list) option" where
  "matched_of_run n tokens = map_option (\<lambda>(ok, tr). (ok, matched tr)) (parse_command n tokens)"

section \<open>Strings (codeNew.py, hybrid_smart_home.py)\<close>

text \<open>
  A Python string is a \<open>string\<close> of characters with code points below 256. The
  whitespace of \<open>str.strip\<close>, \<open>str.split\<close> and the pattern \<open>\s\<close> is the same set
  of characters; \<open>\d\<close> is an ASCII digit in this range.
\<close>

definition is_space :: "char \<Rightarrow> bool" where
  "is_space c = ((of_char c :: nat) \<in> {9, 10, 11, 12, 13, 28, 29, 30, 31, 32, 133, 160})"

definition is_digit :: "char \<Rightarrow> bool" where
  "is_digit c = (48 \<le> (of_char c :: nat) \<and> (of_char c :: nat) \<le> 57)"

definition lower_char :: "char \<Rightarrow> char" where
  "lower_char c =
     (let n = (of_char c :: nat)
      in if (65 \<le> n \<and> n \<le> 90) \<or> (192 \<le> n \<and> n \<le> 222 \<and> n \<noteq> 215)
         then char_of (n + 32) else c)"

definition lower :: "string \<Rightarrow> string" where
  "lower s = map lower_char s"

definition strip :: "string \<Rightarrow> string" where
  "strip s = rev (dropWhile is_space (rev (dropWhile is_space s)))"

text \<open>\<open>s.replace("  ", " ")\<close>: occurrences of two spaces, left to right, without overlap.\<close>

fun replace_two_spaces :: "string \<Rightarrow> string" where
  "replace_two_spaces (c1 # c2 # cs) =
     (if c1 = CHR '' '' \<and> c2 = CHR '' '' then CHR '' '' # replace_two_spaces cs
      else c1 # replace_two_spaces (c2 # cs))"
| "replace_two_spaces cs = cs"

text \<open>\<open>s.split()\<close>: the maximal runs of characters that are not whitespace.\<close>

fun split_from :: "string \<Rightarrow> string \<Rightarrow> string list" where
  "split_from cur [] = (if cur = [] then [] else [cur])"
| "split_from cur (c # cs) =
     (if is_space c then (if cur = [] then split_from [] cs else cur # split_from [] cs)
      else split_from (cur @ [c]) cs)"

definition split :: "string \<Rightarrow> string list" where
  "split s = split_from [] s"

text \<open>\<open>" ".join(xs)\<close>.\<close>

fun join_space :: "string list \<Rightarrow> string" where
  "join_space [] = []"
| "join_space [x] = x"
| "join_space (x # y # ys) = x @ '' '' @ join_space (y # ys)"

text \<open>\<open>p in s\<close> on strings: \<open>p\<close> occurs in \<open>s\<close>.\<close>

primrec contains :: "string \<Rightarrow> string \<Rightarrow> bool" where
  "contains [] p = (p = [])"
| "contains (c # cs) p = (prefix p (c # cs) \<or> contains cs p)"

text \<open>\<open>int(ds)\<close> on a string of digits.\<close>

definition int_of_digits :: "string \<Rightarrow> nat" where
  "int_of_digits ds = foldl (\<lambda>a c. 10 * a + ((of_char c :: nat) - 48)) 0 ds"

text \<open>\<open>tokenize\<close> of codeNew.py: strip, lower, delete the characters \<open>.,;!?\<close>, split.\<close>

definition tokenize :: "string \<Rightarrow> string list" where
  "tokenize s = split (filter (\<lambda>c. c \<notin> set ''.,;!?'') (lower (strip s)))"

section \<open>The device controller\<close>

text \<open>
  \<open>self.devices\<close> of codeNew.py maps a name to a dict with the one key \<open>state\<close>; of
  hybrid_smart_home.py, a name to the state itself. Both are maps from the name to the
  state. \<open>set_device\<close> returns its boolean with the dict after the call.
\<close>

type_synonym devices = "string \<rightharpoonup> string"

definition initial_devices :: devices where
  "initial_devices =
     [''living room lights'' \<mapsto> ''off'', ''kitchen fan'' \<mapsto> ''off'',
      ''bedroom heater'' \<mapsto> ''off'', ''bathroom lights'' \<mapsto> ''off'',
      ''air conditioner'' \<mapsto> ''off'']"

definition set_device :: "devices \<Rightarrow> string \<Rightarrow> string \<Rightarrow> bool \<times> devices" where
  "set_device devs name st =
     (let name' = replace_two_spaces (strip name)
      in if name' \<in> dom devs then (True, devs(name' \<mapsto> st)) else (False, devs))"

text \<open>
  hybrid_smart_home.py: no normalisation of the name; the caller passes the result of
  \<open>extract_device\<close>, which may be \<open>None\<close>, and \<open>None\<close> is no key of the dict.
\<close>

definition initial_devices_hybrid :: devices where
  "initial_devices_hybrid =
     [''living room light'' \<mapsto> ''off'', ''kitchen fan'' \<mapsto> ''off'', ''bedroom heater'' \<mapsto> ''off'']"

definition set_device_hybrid :: "devices \<Rightarrow> string option \<Rightarrow> string \<Rightarrow> bool \<times> devices" where
  "set_device_hybrid devs dev st =
     (case dev of
        None \<Rightarrow> (False, devs)
      | Some d \<Rightarrow> if d \<in> dom devs then (True, devs(d \<mapsto> st)) else (False, devs))"

text \<open>\<open>extract_device\<close> of hybrid_smart_home.py, on the normalised text.\<close>

definition DEFAULT_LIGHT :: string where
  "DEFAULT_LIGHT = ''living room light''"

definition extract_device :: "string \<Rightarrow> string option" where
  "extract_device text =
     (if contains text ''living'' \<and> contains text ''light'' then Some ''living room light''
      else if contains text ''kitchen'' \<and> contains text ''fan'' then Some ''kitchen fan''
      else if contains text ''heater'' then Some ''bedroom heater''
      else if contains text ''light'' then Some DEFAULT_LIGHT
      else None)"

section \<open>The interpreter of codeNew.py\<close>

datatype py_error = ValueError | OverflowError | AttributeError

subsection \<open>Dates and times\<close>

text \<open>
  A naive \<open>datetime\<close>: the date is kept as its proleptic Gregorian ordinal
  (\<open>date.toordinal()\<close>, 1 for 0001-01-01 and \<open>MAXORDINAL\<close> for 9999-12-31), the time of
  day as its four fields. A \<open>timedelta\<close> is its length in microseconds. Adding one gives
  \<open>OverflowError\<close> when the result leaves the range of dates.
\<close>

record datetime =
  ordinal :: nat
  hour :: nat
  minute :: nat
  second :: nat
  microsecond :: nat

definition MAXORDINAL :: nat where
  "MAXORDINAL = 3652059"

definition valid_datetime :: "datetime \<Rightarrow> bool" where
  "valid_datetime d =
     (1 \<le> ordinal d \<and> ordinal d \<le> MAXORDINAL \<and> hour d < 24 \<and> minute d < 60 \<and> second d < 60
      \<and> microsecond d < 1000000)"

definition HOUR :: int where
  "HOUR = 3600000000"

definition MINUTE :: int where
  "MINUTE = 60000000"

definition DAY :: int where
  "DAY = 86400000000"

definition to_us :: "datetime \<Rightarrow> int" where
  "to_us d =
     (((int (ordinal d) * 24 + int (hour d)) * 60 + int (minute d)) * 60 + int (second d)) * 1000000
     + int (microsecond d)"

definition of_us :: "int \<Rightarrow> datetime" where
  "of_us t =
     (let s = t div 1000000; m = s div 60; h = m div 60
      in \<lparr>ordinal = nat (h div 24), hour = nat (h mod 24), minute = nat (m mod 60),
          second = nat (s mod 60), microsecond = nat (t mod 1000000)\<rparr>)"

definition add_timedelta :: "datetime \<Rightarrow> int \<Rightarrow> py_error + datetime" where
  "add_timedelta d delta =
     (let t = to_us d + delta
      in if DAY \<le> t \<and> t < (int MAXORDINAL + 1) * DAY then Inr (of_us t) else Inl OverflowError)"

definition datetime_le :: "datetime \<Rightarrow> datetime \<Rightarrow> bool" where
  "datetime_le a b = (to_us a \<le> to_us b)"

text \<open>
  The words of the specification for a clock time: the hour that \<open>H am\<close> or \<open>H pm\<close>
  names on a 12-hour clock (12 am is hour 0, 12 pm is hour 12), a date at that hour
  sharp, and the same time on the next day.
\<close>

definition clock_hour :: "nat \<Rightarrow> string \<Rightarrow> nat" where
  "clock_hour H ampm =
     (if ampm = ''pm'' then (if H = 12 then 12 else H + 12) else (if H = 12 then 0 else H))"

definition at_hour :: "datetime \<Rightarrow> nat \<Rightarrow> datetime" where
  "at_hour d h = d\<lparr>hour := h, minute := 0, second := 0, microsecond := 0\<rparr>"

definition next_day :: "datetime \<Rightarrow> datetime" where
  "next_day d = d\<lparr>ordinal := ordinal d + 1\<rparr>"

subsection \<open>The patterns\<close>

text \<open>
  Each pattern of the source is written out as the matcher that \<open>re\<close> runs for it at
  one position; \<open>re.search\<close> tries the positions from the left, \<open>re.match\<close> only the
  first. The pieces:
  \<^item> \<open>lit p\<close>: the literal \<open>p\<close>; the result is the rest of the input;
  \<^item> \<open>first_lit ps\<close>: an alternation of literals, tried in order. In every alternation of
    the source no input starts with two of the alternatives, so the first that matches
    is the only one;
  \<^item> \<open>ws1\<close>: \<open>\s+\<close>, \<open>ws0\<close>: \<open>\s*\<close>, \<open>digits12\<close>: \<open>\d{1,2}\<close>, \<open>digits1\<close>: \<open>\d+\<close>.
    They are greedy, and each is followed in its pattern by something that starts with a
    character outside its class, so giving back a character never helps.
\<close>

definition lit :: "string \<Rightarrow> string \<Rightarrow> string option" where
  "lit p s = (if prefix p s then Some (drop (length p) s) else None)"

fun first_lit :: "string list \<Rightarrow> string \<Rightarrow> (string \<times> string) option" where
  "first_lit [] s = None"
| "first_lit (p # ps) s = (case lit p s of Some r \<Rightarrow> Some (p, r) | None \<Rightarrow> first_lit ps s)"

definition ws0 :: "string \<Rightarrow> string" where
  "ws0 s = dropWhile is_space s"

definition ws1 :: "string \<Rightarrow> string option" where
  "ws1 s = (case s of [] \<Rightarrow> None | c # cs \<Rightarrow> if is_space c then Some (ws0 cs) else None)"

definition digits12 :: "string \<Rightarrow> (string \<times> string) option" where
  "digits12 s =
     (case s of
        [] \<Rightarrow> None
      | c1 # r1 \<Rightarrow>
          if \<not> is_digit c1 then None
          else (case r1 of
                  [] \<Rightarrow> Some ([c1], [])
                | c2 # r2 \<Rightarrow> if is_digit c2 then Some ([c1, c2], r2) else Some ([c1], r1)))"

definition digits1 :: "string \<Rightarrow> (string \<times> string) option" where
  "digits1 s =
     (if takeWhile is_digit s = [] then None else Some (takeWhile is_digit s, dropWhile is_digit s))"

text \<open>
  The device pattern
  \<^verbatim>\<open>(turn|switch)\s+(on|off)\s+(?:the\s+)?((?:living|kitchen|bedroom|bathroom)\s+)?(lights?|fan|heater|air conditioner)\<close>
  from its end: \<open>device_np\<close> is group 4, \<open>room_dev\<close> the optional group 3 (the room with the
  whitespace after it) followed by group 4, \<open>the_room_dev\<close> the optional \<open>the\<close> in front.
  An optional group is tried first and dropped when the rest does not match with it.
  The result of \<open>device_match\<close> is groups 2, 3 and 4.
\<close>

definition device_np :: "string \<Rightarrow> string option" where
  "device_np s =
     (case lit ''light'' s of
        Some r \<Rightarrow> (if prefix ''s'' r then Some ''lights'' else Some ''light'')
      | None \<Rightarrow> map_option fst (first_lit [''fan'', ''heater'', ''air conditioner''] s))"

definition room_dev :: "string \<Rightarrow> (string option \<times> string) option" where
  "room_dev s =
     (let without = map_option (\<lambda>d. (None, d)) (device_np s)
      in case first_lit [''living'', ''kitchen'', ''bedroom'', ''bathroom''] s of
           None \<Rightarrow> without
         | Some (room, r) \<Rightarrow>
             (case ws1 r of
                None \<Rightarrow> without
              | Some r' \<Rightarrow>
                  (case device_np r' of
                     None \<Rightarrow> without
                   | Some d \<Rightarrow> Some (Some (room @ takeWhile is_space r), d))))"

definition the_room_dev :: "string \<Rightarrow> (string option \<times> string) option" where
  "the_room_dev s =
     (case lit ''the'' s of
        None \<Rightarrow> room_dev s
      | Some r \<Rightarrow>
          (case ws1 r of
             None \<Rightarrow> room_dev s
           | Some r' \<Rightarrow> (case room_dev r' of None \<Rightarrow> room_dev s | Some x \<Rightarrow> Some x)))"

definition device_match :: "string \<Rightarrow> (string \<times> string option \<times> string) option" where
  "device_match s =
     (case first_lit [''turn'', ''switch''] s of
        None \<Rightarrow> None
      | Some (verb, r1) \<Rightarrow>
          (case ws1 r1 of
             None \<Rightarrow> None
           | Some r2 \<Rightarrow>
               (case first_lit [''on'', ''off''] r2 of
                  None \<Rightarrow> None
                | Some (sw, r3) \<Rightarrow>
                    (case ws1 r3 of
                       None \<Rightarrow> None
                     | Some r4 \<Rightarrow> map_option (\<lambda>(g3, g4). (sw, g3, g4)) (the_room_dev r4)))))"

fun device_search :: "string \<Rightarrow> (string \<times> string option \<times> string) option" where
  "device_search [] = device_match []"
| "device_search (c # cs) =
     (case device_match (c # cs) of Some m \<Rightarrow> Some m | None \<Rightarrow> device_search cs)"

text \<open>
  The clock pattern \<^verbatim>\<open>(\d{1,2})\s*(am|pm)\<close>: the digits, the word, and the rest of the
  input after the match.
\<close>

definition clock_match :: "string \<Rightarrow> (string \<times> string \<times> string) option" where
  "clock_match s =
     (case digits12 s of
        None \<Rightarrow> None
      | Some (ds, r) \<Rightarrow>
          (case first_lit [''am'', ''pm''] (ws0 r) of
             None \<Rightarrow> None
           | Some (ampm, r') \<Rightarrow> Some (ds, ampm, r')))"

text \<open>The text that a match running from \<open>s\<close> up to the rest \<open>r\<close> covers.\<close>

definition covered :: "string \<Rightarrow> string \<Rightarrow> string" where
  "covered s r = take (length s - length r) s"

text \<open>\<^verbatim>\<open>re.search(r'(\d{1,2}\s*(?:am|pm))', phrase).group(1)\<close> and \<^verbatim>\<open>re.search(r'(\d+)', phrase).group(1)\<close>.\<close>

fun clock_search :: "string \<Rightarrow> string option" where
  "clock_search [] = None"
| "clock_search (c # cs) =
     (case clock_match (c # cs) of
        Some (ds, ampm, r) \<Rightarrow> Some (covered (c # cs) r)
      | None \<Rightarrow> clock_search cs)"

fun digits_search :: "string \<Rightarrow> string option" where
  "digits_search [] = None"
| "digits_search (c # cs) =
     (case digits1 (c # cs) of Some (ds, r) \<Rightarrow> Some ds | None \<Rightarrow> digits_search cs)"

text \<open>
  Group 3 of the schedule pattern, one of
  \<^verbatim>\<open>at\s+\d{1,2}\s*(?:am|pm)\<close>, \<^verbatim>\<open>after\s+\d+\s+(?:hours|minutes)\<close>,
  \<^verbatim>\<open>tomorrow\s+at\s+\d{1,2}\s*(?:am|pm)\<close>: the result is the rest of the input.
\<close>

definition at_clock :: "string \<Rightarrow> string option" where
  "at_clock s =
     (case lit ''at'' s of
        None \<Rightarrow> None
      | Some r \<Rightarrow>
          (case ws1 r of
             None \<Rightarrow> None
           | Some r' \<Rightarrow> map_option (\<lambda>(ds, ampm, r''). r'') (clock_match r')))"

definition after_duration :: "string \<Rightarrow> string option" where
  "after_duration s =
     (case lit ''after'' s of
        None \<Rightarrow> None
      | Some r \<Rightarrow>
          (case ws1 r of
             None \<Rightarrow> None
           | Some r' \<Rightarrow>
               (case digits1 r' of
                  None \<Rightarrow> None
                | Some (ds, r'') \<Rightarrow>
                    (case ws1 r'' of
                       None \<Rightarrow> None
                     | Some r3 \<Rightarrow> map_option snd (first_lit [''hours'', ''minutes''] r3)))))"

definition tomorrow_at :: "string \<Rightarrow> string option" where
  "tomorrow_at s =
     (case lit ''tomorrow'' s of
        None \<Rightarrow> None
      | Some r \<Rightarrow> (case ws1 r of None \<Rightarrow> None | Some r' \<Rightarrow> at_clock r'))"

definition time_phrase :: "string \<Rightarrow> string option" where
  "time_phrase s =
     (case at_clock s of
        Some r \<Rightarrow> Some (covered s r)
      | None \<Rightarrow>
          (case after_duration s of
             Some r \<Rightarrow> Some (covered s r)
           | None \<Rightarrow> map_option (covered s) (tomorrow_at s)))"

text \<open>
  The schedule pattern
  \<^verbatim>\<open>(remind me to|set alarm for|schedule a)\s+(.+?)\s+(at ...|after ...|tomorrow ...)\<close>.
  \<open>task_then_time\<close> is the lazy group 2 followed by \<open>\s+\<close> and group 3: group 2
  takes one more character (any but a newline) until the rest matches. The pattern is
  run on the joined tokens only, where whitespace is single spaces, so the \<open>\s+\<close> in
  front of group 2 has no character to give back. The result is groups 2 and 3.
\<close>

fun task_then_time :: "string \<Rightarrow> string \<Rightarrow> (string \<times> string) option" where
  "task_then_time g2 [] = None"
| "task_then_time g2 (c # cs) =
     (if c = CHR 0x0A then None
      else (case (case ws1 cs of None \<Rightarrow> None | Some r \<Rightarrow> time_phrase r) of
              Some g3 \<Rightarrow> Some (g2 @ [c], g3)
            | None \<Rightarrow> task_then_time (g2 @ [c]) cs))"

definition schedule_match :: "string \<Rightarrow> (string \<times> string) option" where
  "schedule_match s =
     (case first_lit [''remind me to'', ''set alarm for'', ''schedule a''] s of
        None \<Rightarrow> None
      | Some (lead, r) \<Rightarrow> (case ws1 r of None \<Rightarrow> None | Some r' \<Rightarrow> task_then_time [] r'))"

fun schedule_search :: "string \<Rightarrow> (string \<times> string) option" where
  "schedule_search [] = None"
| "schedule_search (c # cs) =
     (case schedule_match (c # cs) of Some m \<Rightarrow> Some m | None \<Rightarrow> schedule_search cs)"

subsection \<open>\<open>parse_time_of_day\<close>, \<open>parse_duration\<close> and \<open>interpret\<close>\<close>

text \<open>
  \<open>ref.replace(hour=h, ...)\<close> raises \<open>ValueError\<close> for an hour above 23. The optional
  argument \<open>ref\<close> is always given here: where the source leaves it out, the caller
  passes the reading of the clock.
\<close>

definition parse_time_of_day :: "string \<Rightarrow> datetime \<Rightarrow> py_error + datetime" where
  "parse_time_of_day t ref =
     (case clock_match t of
        None \<Rightarrow> Inl ValueError
      | Some (ds, ampm, r) \<Rightarrow>
          (let h = int_of_digits ds;
               h = (if ampm = ''pm'' \<and> h \<noteq> 12 then h + 12 else h);
               h = (if ampm = ''am'' \<and> h = 12 then 0 else h)
           in if 23 < h then Inl ValueError
              else (let dt = ref\<lparr>hour := h, minute := 0, second := 0, microsecond := 0\<rparr>
                    in if datetime_le dt ref then add_timedelta dt DAY else Inr dt)))"

definition parse_duration :: "int \<Rightarrow> string \<Rightarrow> datetime \<Rightarrow> py_error + datetime" where
  "parse_duration num unit ref =
     (if contains unit ''hour'' then add_timedelta ref (num * HOUR)
      else add_timedelta ref (num * MINUTE))"

datatype action = Device | Schedule

record sem =
  command_text :: string
  action_type :: "action option"
  device :: "string option"
  task :: "string option"
  scheduled_time :: "datetime option"
  state :: "string option"

text \<open>
  \<open>interpret_text\<close> is \<open>interpret\<close> of the source (the name is a keyword here);
  \<open>now\<close> is what \<open>datetime.now()\<close> returns inside it. A \<open>.group\<close> on a
  search without a match is an \<open>AttributeError\<close>.
\<close>

definition schedule_time :: "datetime \<Rightarrow> string \<Rightarrow> py_error + datetime" where
  "schedule_time now phrase =
     (if contains phrase ''after'' then
        (case digits_search phrase of
           None \<Rightarrow> Inl AttributeError
         | Some ds \<Rightarrow>
             parse_duration (int (int_of_digits ds))
               (if contains phrase ''hour'' then ''hours'' else ''minutes'') now)
      else if contains phrase ''tomorrow'' then
        (case clock_search phrase of
           None \<Rightarrow> Inl AttributeError
         | Some hr \<Rightarrow>
             (case add_timedelta now DAY of
                Inl e \<Rightarrow> Inl e
              | Inr ref \<Rightarrow> parse_time_of_day hr ref))
      else
        (case clock_search phrase of
           None \<Rightarrow> Inl AttributeError
         | Some hr \<Rightarrow> parse_time_of_day hr now))"

definition interpret_text :: "datetime \<Rightarrow> string \<Rightarrow> py_error + sem" where
  "interpret_text now text =
     (let joined = join_space (tokenize text);
          result = \<lparr>command_text = text, action_type = None, device = None, task = None,
                    scheduled_time = None, state = None\<rparr>
      in case device_search joined of
           Some (g2, g3, g4) \<Rightarrow>
             (let room = strip (case g3 of None \<Rightarrow> [] | Some r \<Rightarrow> r);
                  dev = strip (room @ '' '' @ g4)
              in Inr (result\<lparr>action_type := Some Device, device := Some dev, state := Some g2\<rparr>))
         | None \<Rightarrow>
             (case schedule_search joined of
                Some (g2, g3) \<Rightarrow>
                  (case schedule_time now g3 of
                     Inl e \<Rightarrow> Inl e
                   | Inr t \<Rightarrow>
                       Inr (result\<lparr>action_type := Some Schedule, task := Some (strip g2),
                                   scheduled_time := Some t\<rparr>))
              | None \<Rightarrow> Inr result))"

section \<open>The assistant of codeNew.py\<close>

text \<open>
  The state that \<open>handle\<close> changes: the dict of the device controller, the rows written
  by \<open>persist_event\<close> and the entries handed to the scheduler. A row leaves out the
  fresh \<open>uuid\<close> and the creation time. The return value is the dict with the keys
  \<open>ok\<close>, \<open>trace\<close> and \<open>result\<close>; the four texts of \<open>result\<close> are an \<open>outcome\<close>.
\<close>

datatype status = Done | Failed | Scheduled

record action_record =
  ev_command_text :: string
  ev_action_type :: action
  ev_target :: string
  ev_scheduled_time :: "datetime option"
  ev_status :: status
  ev_meta_state :: "string option"

datatype outcome = DeviceExecuted | UnknownDevice | ReminderSet datetime | NotRecognized

record response =
  r_ok :: bool
  r_trace :: trace
  r_result :: outcome

record assistant =
  ctrl :: devices
  events :: "action_record list"
  scheduler :: "(datetime \<times> string) list"

definition handle :: "nat \<Rightarrow> datetime \<Rightarrow> string \<Rightarrow> assistant
      \<Rightarrow> (py_error + response \<times> assistant) option" where
  "handle n now text a =
     (case parse_command n (tokenize text) of
        None \<Rightarrow> None
      | Some (ok, tr) \<Rightarrow>
          Some
            (case interpret_text now text of
               Inl e \<Rightarrow> Inl e
             | Inr sm \<Rightarrow>
                 if action_type sm = Some Device then
                   (case (device sm, state sm) of
                      (Some d, Some s) \<Rightarrow>
                        (let (done, devs) = set_device (ctrl a) d s;
                             ev = \<lparr>ev_command_text = text, ev_action_type = Device, ev_target = d,
                                   ev_scheduled_time = None,
                                   ev_status = (if done then Done else Failed),
                                   ev_meta_state = Some s\<rparr>
                         in Inr (\<lparr>r_ok = ok, r_trace = tr,
                                   r_result = (if done then DeviceExecuted else UnknownDevice)\<rparr>,
                                 a\<lparr>ctrl := devs, events := events a @ [ev]\<rparr>))
                    | _ \<Rightarrow> Inl AttributeError)
                 else if action_type sm = Some Schedule then
                   (case (task sm, scheduled_time sm) of
                      (Some tk, Some t) \<Rightarrow>
                        (let ev = \<lparr>ev_command_text = text, ev_action_type = Schedule, ev_target = tk,
                                   ev_scheduled_time = Some t, ev_status = Scheduled,
                                   ev_meta_state = None\<rparr>
                         in Inr (\<lparr>r_ok = ok, r_trace = tr, r_result = ReminderSet t\<rparr>,
                                 a\<lparr>events := events a @ [ev], scheduler := scheduler a @ [(t, tk)]\<rparr>))
                    | _ \<Rightarrow> Inl AttributeError)
                 else Inr (\<lparr>r_ok = False, r_trace = tr, r_result = NotRecognized\<rparr>, a)))"

text \<open>
  The dict that \<open>interpret\<close> returns for a schedule intent, with the text of group 2
  and the resolved time.
\<close>

definition schedule_result :: "string \<Rightarrow> string \<Rightarrow> datetime \<Rightarrow> sem" where
  "schedule_result text g2 t =
     \<lparr>command_text = text, action_type = Some Schedule, device = None, task = Some (strip g2),
      scheduled_time = Some t, state = None\<rparr>"

section \<open>Properties of the parser\<close>

lemma matched_append: "matched (xs @ ys) = matched xs @ matched ys"
  by (induction xs rule: matched.induct) auto

lemma parse_shape:
  "(parse_symbol n g symb tokens i tr = Some (b, k, u) \<longrightarrow>
      (\<exists>t. u = tr @ t) \<and> i \<le> k \<and> (i \<le> length tokens \<longrightarrow> k \<le> length tokens) \<and> (\<not> b \<longrightarrow> k = i))"
  "(parse_prods n g symb tokens i ps tr = Some (b, k, u) \<longrightarrow>
      (\<exists>t. u = tr @ t) \<and> i \<le> k \<and> (i \<le> length tokens \<longrightarrow> k \<le> length tokens) \<and> (\<not> b \<longrightarrow> k = i))"
  "(parse_seq n g tokens p i tr = Some (b, k, u) \<longrightarrow>
      (\<exists>t. u = tr @ t) \<and> i \<le> k \<and> (i \<le> length tokens \<longrightarrow> k \<le> length tokens))"
proof (induction n g symb tokens i tr and n g symb tokens i ps tr and n g tokens p i tr
       arbitrary: b k u and b k u and b k u
       rule: parse_symbol_parse_prods_parse_seq.induct)
  case (1 g symb tokens i tr)
  then show ?case by simp
next
  case (2 n g symb tokens i tr)
  then show ?case by (auto split: option.splits if_splits)
next
  case (3 n g symb tokens i tr)
  then show ?case by auto
next
  case (4 n g symb tokens i prd rest tr)
  show ?case
  proof (cases "parse_seq n g tokens prd i (tr @ [Expanding symb prd])")
    case None
    then show ?thesis by simp
  next
    case (Some r)
    obtain ok1 j1 tr1 where r: "r = (ok1, j1, tr1)" by (cases r) auto
    from "4.IH"(1)[of ok1 j1 tr1] Some r
    have a: "(\<exists>t. tr1 = (tr @ [Expanding symb prd]) @ t)" "i \<le> j1" "i \<le> length tokens \<longrightarrow> j1 \<le> length tokens"
      by auto
    show ?thesis
    proof (cases ok1)
      case True
      with Some r a show ?thesis by auto
    next
      case False
      from "4.IH"(2)[OF Some[unfolded r] refl refl, of b k u] False
      have "parse_prods n g symb tokens i rest (tr1 @ [Backtrack symb prd]) = Some (b, k, u) \<longrightarrow>
         (\<exists>t. u = (tr1 @ [Backtrack symb prd]) @ t) \<and> i \<le> k \<and> (i \<le> length tokens \<longrightarrow> k \<le> length tokens) \<and> (\<not> b \<longrightarrow> k = i)"
        by simp
      with Some r a False show ?thesis by auto
    qed
  qed
next
  case (5 n g tokens j tr)
  then show ?case by auto
next
  case (6 n g tokens s2 ss j tr)
  show ?case
  proof (cases "parse_symbol n g s2 tokens j tr")
    case None
    then show ?thesis by simp
  next
    case (Some r)
    obtain ok1 j1 tr1 where r: "r = (ok1, j1, tr1)" by (cases r) auto
    from "6.IH"(1)[of ok1 j1 tr1] Some r
    have a: "(\<exists>t. tr1 = tr @ t)" "j \<le> j1" "j \<le> length tokens \<longrightarrow> j1 \<le> length tokens"
      by auto
    show ?thesis
    proof (cases ok1)
      case False
      with Some r a show ?thesis by auto
    next
      case True
      from "6.IH"(2)[OF Some[unfolded r] refl refl, of b k u] True
      have "parse_seq n g tokens ss j1 tr1 = Some (b, k, u) \<longrightarrow>
         (\<exists>t. u = tr1 @ t) \<and> j1 \<le> k \<and> (j1 \<le> length tokens \<longrightarrow> k \<le> length tokens)"
        by simp
      with Some r a True show ?thesis by auto
    qed
  qed
qed

lemma take_drop_one: "i < length xs \<Longrightarrow> take (Suc 0) (drop i xs) = [xs ! i]"
  by (metis Cons_nth_drop_Suc take0 take_Suc_Cons)

lemma take_drop_split:
  "i \<le> j \<Longrightarrow> j \<le> k \<Longrightarrow>
   take (k - i) (drop i xs) = take (j - i) (drop i xs) @ take (k - j) (drop j xs)"
proof -
  assume a: "i \<le> j" "j \<le> k"
  then have "k - i = (j - i) + (k - j)" by simp
  then have "take (k - i) (drop i xs) = take (j - i) (drop i xs) @ take (k - j) (drop (j - i) (drop i xs))"
    by (simp only: take_add)
  with a show ?thesis by simp
qed

lemma parse_matched:
  "(parse_symbol n g symb tokens i tr = Some (True, k, u) \<longrightarrow>
      (\<exists>t. u = tr @ t \<and> subseq (take (k - i) (drop i tokens)) (matched t)))"
  "(parse_prods n g symb tokens i ps tr = Some (True, k, u) \<longrightarrow>
      (\<exists>t. u = tr @ t \<and> subseq (take (k - i) (drop i tokens)) (matched t)))"
  "(parse_seq n g tokens p i tr = Some (True, k, u) \<longrightarrow>
      (\<exists>t. u = tr @ t \<and> subseq (take (k - i) (drop i tokens)) (matched t)))"
proof (induction n g symb tokens i tr and n g symb tokens i ps tr and n g tokens p i tr
       arbitrary: k u and k u and k u
       rule: parse_symbol_parse_prods_parse_seq.induct)
  case (1 g symb tokens i tr)
  then show ?case by simp
next
  case (2 n g symb tokens i tr)
  then show ?case by (auto split: option.splits if_splits simp: take_drop_one)
next
  case (3 n g symb tokens i tr)
  then show ?case by auto
next
  case (4 n g symb tokens i prd rest tr)
  show ?case
  proof (cases "parse_seq n g tokens prd i (tr @ [Expanding symb prd])")
    case None
    then show ?thesis by simp
  next
    case (Some r)
    obtain ok1 j1 tr1 where r: "r = (ok1, j1, tr1)" by (cases r) auto
    show ?thesis
    proof (cases ok1)
      case True
      from "4.IH"(1)[of j1 tr1] Some r True
      obtain t where t: "tr1 = (tr @ [Expanding symb prd]) @ t"
        "subseq (take (j1 - i) (drop i tokens)) (matched t)" by auto
      then have "subseq (take (j1 - i) (drop i tokens)) (matched (Expanding symb prd # t))" by simp
      with t(1) Some r True show ?thesis by auto
    next
      case False
      from parse_shape(3)[of n g tokens prd i "tr @ [Expanding symb prd]" ok1 j1 tr1] Some r
      obtain t1 where t1: "tr1 = (tr @ [Expanding symb prd]) @ t1" by auto
      from "4.IH"(2)[OF Some[unfolded r] refl refl, of k u] False
      have ih: "parse_prods n g symb tokens i rest (tr1 @ [Backtrack symb prd]) = Some (True, k, u) \<longrightarrow>
         (\<exists>t. u = (tr1 @ [Backtrack symb prd]) @ t \<and> subseq (take (k - i) (drop i tokens)) (matched t))"
        by simp
      show ?thesis
      proof
        assume "parse_prods n g symb tokens i (prd # rest) tr = Some (True, k, u)"
        with Some r False have "parse_prods n g symb tokens i rest (tr1 @ [Backtrack symb prd]) = Some (True, k, u)"
          by simp
        with ih obtain t where t: "u = (tr1 @ [Backtrack symb prd]) @ t"
          "subseq (take (k - i) (drop i tokens)) (matched t)" by auto
        from t(2) have "subseq (take (k - i) (drop i tokens)) (matched ((Expanding symb prd # t1 @ [Backtrack symb prd]) @ t))"
          unfolding matched_append[of _ t] by (rule list_emb_append2)
        moreover from t(1) t1 have "u = tr @ ((Expanding symb prd # t1 @ [Backtrack symb prd]) @ t)" by simp
        ultimately show "\<exists>t. u = tr @ t \<and> subseq (take (k - i) (drop i tokens)) (matched t)" by blast
      qed
    qed
  qed
next
  case (5 n g tokens j tr)
  then show ?case by auto
next
  case (6 n g tokens s2 ss j tr)
  show ?case
  proof (cases "parse_symbol n g s2 tokens j tr")
    case None
    then show ?thesis by simp
  next
    case (Some r)
    obtain ok1 j1 tr1 where r: "r = (ok1, j1, tr1)" by (cases r) auto
    show ?thesis
    proof (cases ok1)
      case False
      with Some r show ?thesis by auto
    next
      case True
      from "6.IH"(1)[of j1 tr1] Some r True
      obtain t1 where t1: "tr1 = tr @ t1" "subseq (take (j1 - j) (drop j tokens)) (matched t1)"
        by auto
      from parse_shape(1)[of n g s2 tokens j tr ok1 j1 tr1] Some r have le1: "j \<le> j1" by auto
      from "6.IH"(2)[OF Some[unfolded r] refl refl, of k u] True
      have ih: "parse_seq n g tokens ss j1 tr1 = Some (True, k, u) \<longrightarrow>
         (\<exists>t. u = tr1 @ t \<and> subseq (take (k - j1) (drop j1 tokens)) (matched t))"
        by simp
      show ?thesis
      proof
        assume "parse_seq n g tokens (s2 # ss) j tr = Some (True, k, u)"
        with Some r True have s: "parse_seq n g tokens ss j1 tr1 = Some (True, k, u)" by simp
        with ih obtain t where t: "u = tr1 @ t" "subseq (take (k - j1) (drop j1 tokens)) (matched t)"
          by auto
        from parse_shape(3)[of n g tokens ss j1 tr1 True k u] s have le2: "j1 \<le> k" by auto
        have "subseq (take (k - j) (drop j tokens)) (matched (t1 @ t))"
          unfolding matched_append take_drop_split[OF le1 le2]
          using t1(2) t(2) by (rule list_emb_append_mono)
        with t(1) t1(1) show "\<exists>t. u = tr @ t \<and> subseq (take (k - j) (drop j tokens)) (matched t)"
          by auto
      qed
    qed
  qed
qed

lemma parse_seq_prefix:
  assumes "\<And>s i tr. parse_symbol n g s tokens i (tr0 @ tr) = map_option (pre_trace tr0) (parse_symbol n g s tokens i tr)"
  shows "parse_seq n g tokens p i (tr0 @ tr) = map_option (pre_trace tr0) (parse_seq n g tokens p i tr)"
proof (induction p arbitrary: i tr)
  case Nil
  show ?case by (simp add: pre_trace_def)
next
  case (Cons s2 ss)
  show ?case
    by (cases "parse_symbol n g s2 tokens i tr")
       (auto simp: assms Cons.IH pre_trace_def)
qed

lemma parse_prods_prefix:
  assumes "\<And>p i tr. parse_seq n g tokens p i (tr0 @ tr) = map_option (pre_trace tr0) (parse_seq n g tokens p i tr)"
  shows "parse_prods n g symb tokens i ps (tr0 @ tr) = map_option (pre_trace tr0) (parse_prods n g symb tokens i ps tr)"
proof (induction ps arbitrary: tr)
  case Nil
  show ?case by (simp add: pre_trace_def)
next
  case (Cons prd rest)
  have e: "parse_seq n g tokens prd i (tr0 @ tr @ [Expanding symb prd])
      = map_option (pre_trace tr0) (parse_seq n g tokens prd i (tr @ [Expanding symb prd]))"
    by (rule assms)
  show ?case
  proof (cases "parse_seq n g tokens prd i (tr @ [Expanding symb prd])")
    case None
    with e show ?thesis by simp
  next
    case (Some r)
    obtain b k t where r: "r = (b, k, t)" by (cases r) auto
    from Cons.IH[of "t @ [Backtrack symb prd]"] e Some r
    show ?thesis by (auto simp: pre_trace_def)
  qed
qed

lemma parse_symbol_prefix:
  "parse_symbol n g s tokens i (tr0 @ tr) = map_option (pre_trace tr0) (parse_symbol n g s tokens i tr)"
proof (induction n arbitrary: s i tr)
  case 0
  show ?case by simp
next
  case (Suc n)
  have "parse_prods n g s tokens i ps (tr0 @ tr) = map_option (pre_trace tr0) (parse_prods n g s tokens i ps tr)" for ps
    by (rule parse_prods_prefix, rule parse_seq_prefix, rule Suc.IH)
  then show ?case by (auto simp: pre_trace_def split: option.splits)
qed

lemma parse_seq_trace:
  "parse_seq n g tokens p i tr = map_option (pre_trace tr) (parse_seq n g tokens p i [])"
  using parse_seq_prefix[of n g tokens tr p i "[]", OF parse_symbol_prefix] by simp

lemma parse_symbol_trace:
  "parse_symbol n g s tokens i tr = map_option (pre_trace tr) (parse_symbol n g s tokens i [])"
  using parse_symbol_prefix[of n g s tokens i tr "[]"] by simp

lemma ranked_lt:
  "ranked g r \<Longrightarrow> map_of g s = Some ps \<Longrightarrow> p \<in> set ps \<Longrightarrow> s2 \<in> set p \<Longrightarrow> r s2 < r s"
  unfolding ranked_def list_all_iff by (auto dest!: map_of_SomeD)

lemma parse_total:
  "ranked g r \<longrightarrow> r symb < n \<longrightarrow> parse_symbol n g symb tokens i tr \<noteq> None"
  "ranked g r \<longrightarrow> (\<forall>p\<in>set ps. \<forall>s2\<in>set p. r s2 < n) \<longrightarrow> parse_prods n g symb tokens i ps tr \<noteq> None"
  "ranked g r \<longrightarrow> (\<forall>s2\<in>set p. r s2 < n) \<longrightarrow> parse_seq n g tokens p i tr \<noteq> None"
proof (induction n g symb tokens i tr and n g symb tokens i ps tr and n g tokens p i tr
       rule: parse_symbol_parse_prods_parse_seq.induct)
  case (1 g symb tokens i tr)
  then show ?case by simp
next
  case (2 n g symb tokens i tr)
  show ?case
  proof (cases "map_of g symb")
    case None
    then show ?thesis by auto
  next
    case (Some prods)
    have "ranked g r \<Longrightarrow> r symb < Suc n \<Longrightarrow> (\<forall>p\<in>set prods. \<forall>s2\<in>set p. r s2 < n)"
      using ranked_lt[of g r symb prods, OF _ Some] by fastforce
    with "2.IH"[OF Some] Some show ?thesis by auto
  qed
next
  case (3 n g symb tokens i tr)
  then show ?case by simp
next
  case (4 n g symb tokens i prd rest tr)
  show ?case
  proof (cases "parse_seq n g tokens prd i (tr @ [Expanding symb prd])")
    case None
    with "4.IH"(1) show ?thesis by auto
  next
    case (Some x)
    obtain b k t where x: "x = (b, k, t)" by (cases x) auto
    from "4.IH"(2)[OF Some[unfolded x] refl refl] Some x show ?thesis by auto
  qed
next
  case (5 n g tokens j tr)
  then show ?case by simp
next
  case (6 n g tokens s2 ss j tr)
  show ?case
  proof (cases "parse_symbol n g s2 tokens j tr")
    case None
    with "6.IH"(1) show ?thesis by auto
  next
    case (Some x)
    obtain b k t where x: "x = (b, k, t)" by (cases x) auto
    from "6.IH"(2)[OF Some[unfolded x] refl refl] Some x show ?thesis by auto
  qed
qed

lemma parse_fuel_Suc:
  "parse_symbol n g symb tokens i tr = Some x \<longrightarrow> parse_symbol (Suc n) g symb tokens i tr = Some x"
  "parse_prods n g symb tokens i ps tr = Some x \<longrightarrow> parse_prods (Suc n) g symb tokens i ps tr = Some x"
  "parse_seq n g tokens p i tr = Some x \<longrightarrow> parse_seq (Suc n) g tokens p i tr = Some x"
proof (induction n g symb tokens i tr and n g symb tokens i ps tr and n g tokens p i tr
       arbitrary: x and x and x
       rule: parse_symbol_parse_prods_parse_seq.induct)
  case (1 g symb tokens i tr)
  then show ?case by simp
next
  case (2 n g symb tokens i tr)
  show ?case
  proof (cases "map_of g symb")
    case None
    then show ?thesis by simp
  next
    case (Some prods)
    with "2.IH"[OF Some, of x] show ?thesis by simp
  qed
next
  case (3 n g symb tokens i tr)
  then show ?case by simp
next
  case (4 n g symb tokens i prd rest tr)
  show ?case
  proof (cases "parse_seq n g tokens prd i (tr @ [Expanding symb prd])")
    case None
    then show ?thesis by simp
  next
    case (Some y)
    obtain b k t where y: "y = (b, k, t)" by (cases y) auto
    from "4.IH"(1)[of y] Some
    have s: "parse_seq (Suc n) g tokens prd i (tr @ [Expanding symb prd]) = Some y" by simp
    from "4.IH"(2)[OF Some[unfolded y] refl refl, of x] Some y s
    show ?thesis by auto
  qed
next
  case (5 n g tokens j tr)
  then show ?case by simp
next
  case (6 n g tokens s2 ss j tr)
  show ?case
  proof (cases "parse_symbol n g s2 tokens j tr")
    case None
    then show ?thesis by simp
  next
    case (Some y)
    obtain b k t where y: "y = (b, k, t)" by (cases y) auto
    from "6.IH"(1)[of y] Some
    have s: "parse_symbol (Suc n) g s2 tokens j tr = Some y" by blast
    from "6.IH"(2)[OF Some[unfolded y] refl refl, of x] Some y
    have "parse_seq n g tokens (s2 # ss) j tr = Some x \<longrightarrow> 
          (case parse_symbol (Suc n) g s2 tokens j tr of None \<Rightarrow> None
            | Some (ok, j', tr') \<Rightarrow> if \<not> ok then Some (False, j', tr') else parse_seq (Suc n) g tokens ss j' tr') = Some x"
      unfolding s y by auto
    then show ?thesis by (simp only: parse_seq.simps)
  qed
qed

lemma parse_fuel_mono:
  assumes "parse_symbol n g symb tokens i tr = Some x" and "n \<le> m"
  shows "parse_symbol m g symb tokens i tr = Some x"
  using assms(2)
proof (induction rule: dec_induct)
  case base
  show ?case by (rule assms(1))
next
  case (step k)
  from parse_fuel_Suc(1)[rule_format, OF step.IH] show ?case .
qed

lemma ranked_GRAMMAR: "ranked GRAMMAR rank_GRAMMAR"
  by (simp add: ranked_def GRAMMAR_def rank_GRAMMAR_def)

lemma ranked_grammar_code: "ranked grammar_code rank_code"
  by (simp add: ranked_def grammar_code_def rank_code_def)

lemma rank_GRAMMAR_le: "rank_GRAMMAR s \<le> 4"
  by (simp add: rank_GRAMMAR_def)

lemma rank_code_le: "rank_code s \<le> 6"
  by (simp add: rank_code_def)

lemma parse_symbol_GRAMMAR_total: "5 \<le> n \<Longrightarrow> parse_symbol n GRAMMAR symb tokens i tr \<noteq> None"
  using parse_total(1)[of GRAMMAR rank_GRAMMAR symb n tokens i tr] ranked_GRAMMAR
    rank_GRAMMAR_le[of symb] by simp

lemma parse_symbol_code_total: "7 \<le> n \<Longrightarrow> parse_symbol n grammar_code symb tokens i tr \<noteq> None"
  using parse_total(1)[of grammar_code rank_code symb n tokens i tr] ranked_grammar_code
    rank_code_le[of symb] by simp

lemma parse_prods_first_match:
  assumes "\<forall>p \<in> set pre. \<exists>k t. parse_seq n g tokens p i [] = Some (False, k, t)"
    and "parse_seq n g tokens A i [] = Some (True, j, tA)"
  shows "\<exists>t0. \<forall>post. parse_prods n g symb tokens i (pre @ A # post) tr
            = Some (True, j, tr @ t0 @ Expanding symb A # tA)"
  using assms(1)
proof (induction pre arbitrary: tr)
  case Nil
  have "parse_seq n g tokens A i (tr @ [Expanding symb A]) = Some (True, j, (tr @ [Expanding symb A]) @ tA)"
    using parse_seq_trace[of n g tokens A i "tr @ [Expanding symb A]"] assms(2)
    by (simp add: pre_trace_def)
  then have "\<forall>post. parse_prods n g symb tokens i ([] @ A # post) tr
            = Some (True, j, tr @ [] @ Expanding symb A # tA)" by simp
  then show ?case by blast
next
  case (Cons p pre)
  then obtain k t where f: "parse_seq n g tokens p i [] = Some (False, k, t)" by auto
  have f': "parse_seq n g tokens p i (tr @ [Expanding symb p]) = Some (False, k, (tr @ [Expanding symb p]) @ t)"
    using parse_seq_trace[of n g tokens p i "tr @ [Expanding symb p]"] f
    by (simp add: pre_trace_def)
  from Cons.prems have "\<forall>p \<in> set pre. \<exists>k t. parse_seq n g tokens p i [] = Some (False, k, t)" by simp
  from Cons.IH[OF this, of "((tr @ [Expanding symb p]) @ t) @ [Backtrack symb p]"]
  obtain t0 where t0: "\<forall>post. parse_prods n g symb tokens i (pre @ A # post)
        (((tr @ [Expanding symb p]) @ t) @ [Backtrack symb p])
      = Some (True, j, (((tr @ [Expanding symb p]) @ t) @ [Backtrack symb p]) @ t0 @ Expanding symb A # tA)"
    by blast
  have "\<forall>post. parse_prods n g symb tokens i ((p # pre) @ A # post) tr
      = Some (True, j, tr @ (Expanding symb p # t @ Backtrack symb p # t0) @ Expanding symb A # tA)"
    using f' t0 by simp
  then show ?case by blast
qed

lemma result_cases:
  "map_option (\<lambda>(b, k, t). (b, k)) r = Some (b0, k0) \<Longrightarrow> \<exists>t. r = Some (b0, k0, t)"
  by (cases r) auto

lemma verdict_cases:
  "map_option (\<lambda>(b, t). (b, matched t)) r = Some (b0, m) \<Longrightarrow> \<exists>t. r = Some (b0, t) \<and> matched t = m"
  by (cases r) auto

section \<open>Properties of the interpreter and the assistant\<close>

lemma interpret_device_fields:
  assumes "interpret_text now text = Inr sm" and "action_type sm = Some Device"
  shows "\<exists>d s. device sm = Some d \<and> state sm = Some s"
  using assms
  by (auto simp: interpret_text_def Let_def split: option.splits sum.splits)

lemma digit_div: "0 \<le> r \<Longrightarrow> r < k \<Longrightarrow> (q * k + r) div k = (q::int)"
  by simp

lemma digit_mod: "0 \<le> r \<Longrightarrow> r < k \<Longrightarrow> (q * k + r) mod k = (r::int)"
  by simp

lemma to_us_of_us: "0 \<le> t \<Longrightarrow> to_us (of_us t) = t"
proof -
  assume t: "0 \<le> t"
  define s where "s = t div 1000000"
  define m where "m = s div 60"
  define h where "h = m div 60"
  have nn: "0 \<le> s" "0 \<le> m" "0 \<le> h" using t by (simp_all add: s_def m_def h_def pos_imp_zdiv_nonneg_iff)
  have "to_us (of_us t) = (((h div 24 * 24 + h mod 24) * 60 + m mod 60) * 60 + s mod 60) * 1000000 + t mod 1000000"
    using nn t by (simp add: to_us_def of_us_def Let_def s_def[symmetric] m_def[symmetric] h_def[symmetric]
        pos_imp_zdiv_nonneg_iff)
  also have "\<dots> = ((h * 60 + m mod 60) * 60 + s mod 60) * 1000000 + t mod 1000000" by simp
  also have "\<dots> = (m * 60 + s mod 60) * 1000000 + t mod 1000000" by (simp add: h_def)
  also have "\<dots> = s * 1000000 + t mod 1000000" by (simp add: m_def)
  also have "\<dots> = t" by (simp add: s_def)
  finally show ?thesis .
qed

lemma of_us_to_us:
  assumes "hour d < 24" "minute d < 60" "second d < 60" "microsecond d < 1000000"
  shows "of_us (to_us d) = d"
proof -
  define o' where "o' = int (ordinal d)"
  define h where "h = int (hour d)"
  define m where "m = int (minute d)"
  define s where "s = int (second d)"
  define u where "u = int (microsecond d)"
  have b: "0 \<le> h" "h < 24" "0 \<le> m" "m < 60" "0 \<le> s" "s < 60" "0 \<le> u" "u < 1000000" "0 \<le> o'"
    using assms by (simp_all add: h_def m_def s_def u_def o'_def)
  have t: "to_us d = (((o' * 24 + h) * 60 + m) * 60 + s) * 1000000 + u"
    by (simp add: to_us_def o'_def h_def m_def s_def u_def)
  have 1: "to_us d mod 1000000 = u" unfolding t using b by (intro digit_mod) simp_all
  have 2: "to_us d div 1000000 = ((o' * 24 + h) * 60 + m) * 60 + s" unfolding t using b by (intro digit_div) simp_all
  have 3: "(((o' * 24 + h) * 60 + m) * 60 + s) mod 60 = s" using b by (intro digit_mod) simp_all
  have 4: "(((o' * 24 + h) * 60 + m) * 60 + s) div 60 = (o' * 24 + h) * 60 + m" using b by (intro digit_div) simp_all
  have 5: "((o' * 24 + h) * 60 + m) mod 60 = m" using b by (intro digit_mod) simp_all
  have 6: "((o' * 24 + h) * 60 + m) div 60 = o' * 24 + h" using b by (intro digit_div) simp_all
  have 7: "(o' * 24 + h) mod 24 = h" using b by (intro digit_mod) simp_all
  have 8: "(o' * 24 + h) div 24 = o'" using b by (intro digit_div) simp_all
  have "of_us (to_us d) = \<lparr>ordinal = nat o', hour = nat h, minute = nat m, second = nat s, microsecond = nat u\<rparr>"
    unfolding of_us_def Let_def 1 2 3 4 5 6 7 8 ..
  also have "\<dots> = d" by (simp add: o'_def h_def m_def s_def u_def)
  finally show ?thesis .
qed

lemma valid_of_us:
  assumes "DAY \<le> t" and "t < (int MAXORDINAL + 1) * DAY"
  shows "valid_datetime (of_us t)"
proof -
  define s where "s = t div 1000000"
  define m where "m = s div 60"
  define h where "h = m div 60"
  have t0: "0 \<le> t" using assms(1) by (simp add: DAY_def)
  have nn: "0 \<le> s" "0 \<le> m" "0 \<le> h" using t0 by (simp_all add: s_def m_def h_def pos_imp_zdiv_nonneg_iff)
  have hd: "h div 24 = t div DAY"
    by (simp add: h_def m_def s_def DAY_def div_mult2_eq[symmetric])
  have lo: "1 \<le> t div DAY" using assms(1) unfolding DAY_def by arith
  have hi: "t div DAY \<le> int MAXORDINAL" using assms(2) unfolding DAY_def MAXORDINAL_def by simp
  have f: "nat (h mod 24) < 24" "nat (m mod 60) < 60" "nat (s mod 60) < 60"
    "nat (t mod 1000000) < 1000000" by simp_all
  have g: "1 \<le> nat (t div DAY)" "nat (t div DAY) \<le> MAXORDINAL" using lo hi by simp_all
  show ?thesis
    using f g
    by (simp add: valid_datetime_def of_us_def Let_def s_def[symmetric] m_def[symmetric] h_def[symmetric] hd)
qed

lemma first_lit_mem: "first_lit ps s = Some (p, r) \<Longrightarrow> p \<in> set ps"
  by (induction ps) (auto split: option.splits)

lemma clock_match_ampm: "clock_match t = Some (ds, ampm, r) \<Longrightarrow> ampm = ''am'' \<or> ampm = ''pm''"
  by (auto simp: clock_match_def split: option.splits dest: first_lit_mem)

lemma to_us_next_day: "to_us (next_day d) = to_us d + DAY"
  by (simp add: to_us_def next_day_def DAY_def)

lemma add_one_day:
  assumes "1 \<le> ordinal d" "ordinal d < MAXORDINAL" "hour d < 24" "minute d < 60" "second d < 60"
    "microsecond d < 1000000"
  shows "add_timedelta d DAY = Inr (next_day d)"
proof -
  have lo: "DAY \<le> to_us d + DAY" by (simp add: to_us_def)
  have "to_us (next_day d) < (int (ordinal (next_day d)) + 1) * DAY"
    using assms(3-6) by (simp add: to_us_def next_day_def DAY_def)
  also have "\<dots> \<le> (int MAXORDINAL + 1) * DAY"
    using assms(2) by (simp add: next_day_def DAY_def)
  finally have hi: "to_us d + DAY < (int MAXORDINAL + 1) * DAY" by (simp add: to_us_next_day)
  have "of_us (to_us (next_day d)) = next_day d"
    using assms(3-6) by (intro of_us_to_us) (simp_all add: next_day_def)
  then have "of_us (to_us d + DAY) = next_day d"
    by (simp only: to_us_next_day)
  with lo hi show ?thesis by (simp add: add_timedelta_def Let_def)
qed

lemma parse_time_of_day_clock:
  assumes "clock_match t = Some (ds, ampm, r)" and "1 \<le> int_of_digits ds" and "int_of_digits ds \<le> 12"
  shows "parse_time_of_day t ref =
     (if datetime_le (at_hour ref (clock_hour (int_of_digits ds) ampm)) ref
      then add_timedelta (at_hour ref (clock_hour (int_of_digits ds) ampm)) DAY
      else Inr (at_hour ref (clock_hour (int_of_digits ds) ampm)))"
  using assms clock_match_ampm[OF assms(1)]
  by (auto simp: parse_time_of_day_def Let_def clock_hour_def at_hour_def)

lemma device_search_room:
  assumes "verb \<in> {''turn'', ''switch''}" and "sw \<in> {''on'', ''off''}" and "art \<in> {'''', ''the ''}"
    and "room \<in> {''kitchen'', ''bedroom'', ''bathroom''}"
    and "dev \<in> {''light'', ''lights'', ''fan'', ''heater'', ''air conditioner''}"
  shows "device_search (verb @ '' '' @ sw @ '' '' @ art @ room @ '' '' @ dev) = Some (sw, Some (room @ '' ''), dev)"
  using assms by (elim insertE emptyE; hypsubst; code_simp)

lemma device_search_bare:
  assumes "verb \<in> {''turn'', ''switch''}" and "sw \<in> {''on'', ''off''}" and "art \<in> {'''', ''the ''}"
    and "dev \<in> {''light'', ''lights'', ''fan'', ''heater'', ''air conditioner''}"
  shows "device_search (verb @ '' '' @ sw @ '' '' @ art @ dev) = Some (sw, None, dev)"
  using assms by (elim insertE emptyE; hypsubst; code_simp)

lemma strip_room_dev:
  assumes "room \<in> {''kitchen'', ''bedroom'', ''bathroom''}"
    and "dev \<in> {''light'', ''lights'', ''fan'', ''heater'', ''air conditioner''}"
  shows "strip (room @ '' '') = room" and "strip (room @ '' '' @ dev) = room @ '' '' @ dev"
    and "strip ('''' @ '' '' @ dev) = dev"
  using assms by (elim insertE emptyE; hypsubst; code_simp)+

lemma contains_sublist: "contains s p = sublist p s"
  by (induction s) (simp_all add: sublist_Cons_right)

lemma sublist_trans: "sublist a b \<Longrightarrow> sublist b c \<Longrightarrow> sublist a c"
  by (rule sublist_order.order.trans)

lemma prefix_of_suffix: "prefix d r \<Longrightarrow> suffix r s \<Longrightarrow> sublist d s"
  unfolding sublist_altdef' by blast

lemma lit_Some: "lit p s = Some r \<Longrightarrow> s = p @ r"
  by (auto simp: lit_def prefix_def split: if_splits)

lemma first_lit_Some: "first_lit ps s = Some (p, r) \<Longrightarrow> p \<in> set ps \<and> s = p @ r"
  by (induction ps) (auto split: option.splits dest: lit_Some)

lemma ws1_suffix: "ws1 s = Some r \<Longrightarrow> suffix r s"
  by (auto simp: ws1_def ws0_def split: list.splits if_splits intro: suffix_ConsI suffix_dropWhile)

lemma device_np_Some:
  assumes "device_np s = Some d"
  shows "d \<in> {''light'', ''lights'', ''fan'', ''heater'', ''air conditioner''} \<and> prefix d s"
proof (cases "lit ''light'' s")
  case None
  with assms obtain r where "first_lit [''fan'', ''heater'', ''air conditioner''] s = Some (d, r)"
    by (auto simp: device_np_def)
  from first_lit_Some[OF this] show ?thesis by auto
next
  case (Some r)
  from lit_Some[OF Some] have s: "s = ''light'' @ r" .
  show ?thesis
  proof (cases "prefix ''s'' r")
    case True
    with assms Some have d: "d = ''lights''" by (simp add: device_np_def)
    from True obtain r' where "r = ''s'' @ r'" by (auto simp: prefix_def)
    with s d show ?thesis by simp
  next
    case False
    with assms Some have d: "d = ''light''" by (simp add: device_np_def)
    with s show ?thesis by simp
  qed
qed

lemma room_dev_Some:
  assumes "room_dev s = Some (g3, d)"
  shows "d \<in> {''light'', ''lights'', ''fan'', ''heater'', ''air conditioner''} \<and> sublist d s"
proof -
  have "device_np s = Some d \<or>
    (\<exists>room r r'. first_lit [''living'', ''kitchen'', ''bedroom'', ''bathroom''] s = Some (room, r)
        \<and> ws1 r = Some r' \<and> device_np r' = Some d)"
    using assms by (auto simp: room_dev_def Let_def split: option.splits)
  then show ?thesis
  proof
    assume "device_np s = Some d"
    from device_np_Some[OF this] show ?thesis by auto
  next
    assume "\<exists>room r r'. first_lit [''living'', ''kitchen'', ''bedroom'', ''bathroom''] s = Some (room, r)
        \<and> ws1 r = Some r' \<and> device_np r' = Some d"
    then obtain room r r' where f: "first_lit [''living'', ''kitchen'', ''bedroom'', ''bathroom''] s = Some (room, r)"
      and w: "ws1 r = Some r'" and n: "device_np r' = Some d" by blast
    from first_lit_Some[OF f] have "suffix r s" by (auto simp: suffix_def)
    with ws1_suffix[OF w] have "suffix r' s" by (rule suffix_order.trans)
    moreover from device_np_Some[OF n] have dd: "d \<in> {''light'', ''lights'', ''fan'', ''heater'', ''air conditioner''}"
      and "prefix d r'" by auto
    ultimately have "sublist d s" by (blast intro: prefix_of_suffix)
    with dd show ?thesis by simp
  qed
qed

lemma the_room_dev_Some:
  assumes "the_room_dev s = Some (g3, d)"
  shows "d \<in> {''light'', ''lights'', ''fan'', ''heater'', ''air conditioner''} \<and> sublist d s"
proof -
  have "room_dev s = Some (g3, d) \<or>
    (\<exists>r r'. lit ''the'' s = Some r \<and> ws1 r = Some r' \<and> room_dev r' = Some (g3, d))"
    using assms by (auto simp: the_room_dev_def split: option.splits)
  then show ?thesis
  proof
    assume "room_dev s = Some (g3, d)"
    from room_dev_Some[OF this] show ?thesis .
  next
    assume "\<exists>r r'. lit ''the'' s = Some r \<and> ws1 r = Some r' \<and> room_dev r' = Some (g3, d)"
    then obtain r r' where l: "lit ''the'' s = Some r" and w: "ws1 r = Some r'"
      and rd: "room_dev r' = Some (g3, d)" by blast
    from lit_Some[OF l] have "suffix r s" by (auto simp: suffix_def)
    with ws1_suffix[OF w] have "suffix r' s" by (rule suffix_order.trans)
    with room_dev_Some[OF rd] show ?thesis
      by (blast intro: sublist_trans suffix_imp_sublist)
  qed
qed

lemma device_match_Some:
  assumes "device_match s = Some (sw, g3, d)"
  shows "d \<in> {''light'', ''lights'', ''fan'', ''heater'', ''air conditioner''} \<and> sublist d s"
proof -
  from assms obtain verb r1 r2 sw' r3 r4 where
    1: "first_lit [''turn'', ''switch''] s = Some (verb, r1)" and 2: "ws1 r1 = Some r2"
    and 3: "first_lit [''on'', ''off''] r2 = Some (sw', r3)" and 4: "ws1 r3 = Some r4"
    and 5: "the_room_dev r4 = Some (g3, d)"
    by (auto simp: device_match_def split: option.splits)
  from first_lit_Some[OF 1] have "suffix r1 s" by (auto simp: suffix_def)
  with ws1_suffix[OF 2] have a: "suffix r2 s" by (rule suffix_order.trans)
  from first_lit_Some[OF 3] have "suffix r3 r2" by (auto simp: suffix_def)
  with ws1_suffix[OF 4] have "suffix r4 r2" by (rule suffix_order.trans)
  then have "suffix r4 s" using a by (rule suffix_order.trans)
  with the_room_dev_Some[OF 5] show ?thesis
    by (blast intro: sublist_trans suffix_imp_sublist)
qed

lemma device_search_Some:
  "device_search s = Some (sw, g3, d) \<Longrightarrow>
     d \<in> {''light'', ''lights'', ''fan'', ''heater'', ''air conditioner''} \<and> sublist d s"
proof (induction s)
  case Nil
  then show ?case by (simp add: device_match_def lit_def)
next
  case (Cons c cs)
  show ?case
  proof (cases "device_match (c # cs)")
    case None
    with Cons.prems have "device_search cs = Some (sw, g3, d)" by simp
    from Cons.IH[OF this] show ?thesis by (auto intro: sublist_Cons_right[THEN iffD2])
  next
    case (Some m)
    with Cons.prems have "device_match (c # cs) = Some (sw, g3, d)" by simp
    from device_match_Some[OF this] show ?thesis .
  qed
qed

lemma no_device_noun:
  assumes "\<not> contains s ''light''" "\<not> contains s ''fan''" "\<not> contains s ''heater''"
    "\<not> contains s ''air conditioner''"
  shows "device_search s = None"
proof (rule ccontr)
  assume "device_search s \<noteq> None"
  then obtain sw g3 d where m: "device_search s = Some (sw, g3, d)" by (cases "device_search s") auto
  from device_search_Some[OF m] have d: "d \<in> {''light'', ''lights'', ''fan'', ''heater'', ''air conditioner''}"
    and sub: "sublist d s" by auto
  have "sublist ''light'' ''lights''" by (rule prefix_imp_sublist) simp
  then have "d = ''lights'' \<Longrightarrow> sublist ''light'' s" using sub by (blast intro: sublist_trans)
  with d sub assms show False by (auto simp: contains_sublist)
qed

lemma interpret_device_match:
  assumes "device_search (join_space (tokenize text)) = Some (g2, g3, g4)"
  shows "interpret_text now text =
     Inr \<lparr>command_text = text, action_type = Some Device,
          device = Some (strip (strip (case g3 of None \<Rightarrow> [] | Some r \<Rightarrow> r) @ '' '' @ g4)),
          task = None, scheduled_time = None, state = Some g2\<rparr>"
  unfolding interpret_text_def Let_def assms by simp

lemma interpret_no_device:
  assumes "device_search (join_space (tokenize text)) = None" and "interpret_text now text = Inr sm"
  shows "device sm = None \<and> action_type sm \<noteq> Some Device"
  using assms(2) unfolding interpret_text_def Let_def assms(1)
  by (auto split: option.splits sum.splits)

lemma parse_time_resolution:
  assumes "valid_datetime ref" and "clock_match t = Some (ds, ampm, r)"
    and "1 \<le> int_of_digits ds" and "int_of_digits ds \<le> 12"
  shows "(to_us ref < to_us (at_hour ref (clock_hour (int_of_digits ds) ampm))
            \<longrightarrow> parse_time_of_day t ref = Inr (at_hour ref (clock_hour (int_of_digits ds) ampm)))
       \<and> (to_us (at_hour ref (clock_hour (int_of_digits ds) ampm)) \<le> to_us ref \<and> ordinal ref < MAXORDINAL
            \<longrightarrow> parse_time_of_day t ref = Inr (next_day (at_hour ref (clock_hour (int_of_digits ds) ampm)))
              \<and> to_us ref < to_us (next_day (at_hour ref (clock_hour (int_of_digits ds) ampm))))
       \<and> (DAY \<le> to_us ref + N * HOUR \<and> to_us ref + N * HOUR < (int MAXORDINAL + 1) * DAY
            \<longrightarrow> (\<exists>d. parse_duration N ''hours'' ref = Inr d \<and> valid_datetime d
                    \<and> to_us d = to_us ref + N * HOUR))
       \<and> (DAY \<le> to_us ref + N * MINUTE \<and> to_us ref + N * MINUTE < (int MAXORDINAL + 1) * DAY
            \<longrightarrow> (\<exists>d. parse_duration N ''minutes'' ref = Inr d \<and> valid_datetime d
                    \<and> to_us d = to_us ref + N * MINUTE))"
proof -
  define h where "h = clock_hour (int_of_digits ds) ampm"
  have h23: "h < 24" using assms(3,4) by (simp add: h_def clock_hour_def)
  note p = parse_time_of_day_clock[OF assms(2,3,4), of ref, folded h_def]
  have v: "1 \<le> ordinal ref" "hour ref < 24" "minute ref < 60" "second ref < 60" "microsecond ref < 1000000"
    using assms(1) by (simp_all add: valid_datetime_def)
  have a: "to_us ref < to_us (at_hour ref h) \<longrightarrow> parse_time_of_day t ref = Inr (at_hour ref h)"
    by (simp add: p datetime_le_def)
  have b: "to_us (at_hour ref h) \<le> to_us ref \<and> ordinal ref < MAXORDINAL
      \<longrightarrow> parse_time_of_day t ref = Inr (next_day (at_hour ref h))
          \<and> to_us ref < to_us (next_day (at_hour ref h))"
  proof
    assume c: "to_us (at_hour ref h) \<le> to_us ref \<and> ordinal ref < MAXORDINAL"
    have "add_timedelta (at_hour ref h) DAY = Inr (next_day (at_hour ref h))"
      using v c h23 by (intro add_one_day) (simp_all add: at_hour_def)
    with c have 1: "parse_time_of_day t ref = Inr (next_day (at_hour ref h))"
      by (simp add: p datetime_le_def)
    have "to_us ref < (int (ordinal ref) + 1) * DAY"
      using v by (simp add: to_us_def DAY_def)
    also have "\<dots> \<le> to_us (at_hour ref h) + DAY"
      by (simp add: to_us_def at_hour_def DAY_def)
    finally have "to_us ref < to_us (next_day (at_hour ref h))" by (simp add: to_us_next_day)
    with 1 show "parse_time_of_day t ref = Inr (next_day (at_hour ref h))
          \<and> to_us ref < to_us (next_day (at_hour ref h))" by simp
  qed
  have dur: "\<exists>d. add_timedelta ref x = Inr d \<and> valid_datetime d \<and> to_us d = to_us ref + x"
    if "DAY \<le> to_us ref + x \<and> to_us ref + x < (int MAXORDINAL + 1) * DAY" for x
  proof -
    from that have "0 \<le> to_us ref + x" by (simp add: DAY_def)
    with that show ?thesis
      by (simp add: add_timedelta_def Let_def valid_of_us to_us_of_us)
  qed
  have hc: "contains ''hours'' ''hour''" "\<not> contains ''minutes'' ''hour''" by code_simp+
  have c: "DAY \<le> to_us ref + N * HOUR \<and> to_us ref + N * HOUR < (int MAXORDINAL + 1) * DAY
            \<longrightarrow> (\<exists>d. parse_duration N ''hours'' ref = Inr d \<and> valid_datetime d
                    \<and> to_us d = to_us ref + N * HOUR)"
    using dur[of "N * HOUR"] by (simp add: parse_duration_def hc)
  have d: "DAY \<le> to_us ref + N * MINUTE \<and> to_us ref + N * MINUTE < (int MAXORDINAL + 1) * DAY
            \<longrightarrow> (\<exists>d. parse_duration N ''minutes'' ref = Inr d \<and> valid_datetime d
                    \<and> to_us d = to_us ref + N * MINUTE)"
    using dur[of "N * MINUTE"] by (simp add: parse_duration_def hc)
  from a b c d show ?thesis unfolding h_def by blast
qed

lemma digits12_app:
  assumes "ds \<noteq> []" and "length ds \<le> 2" and "list_all is_digit ds"
    and "x = [] \<or> \<not> is_digit (hd x)"
  shows "digits12 (ds @ x) = Some (ds, x)"
proof -
  from assms(1,2) consider c1 where "ds = [c1]" | c1 c2 where "ds = [c1, c2]"
    by (cases ds; cases "tl ds"; cases "tl (tl ds)") auto
  then show ?thesis
  proof cases
    case 1
    with assms(3,4) show ?thesis by (cases x) (auto simp: digits12_def)
  next
    case 2
    with assms(3) show ?thesis by (auto simp: digits12_def)
  qed
qed

lemma clock_match_app:
  assumes "ds \<noteq> []" and "length ds \<le> 2" and "list_all is_digit ds"
    and "sp \<in> {[], '' ''}" and "ap \<in> {''am'', ''pm''}"
  shows "clock_match (ds @ sp @ ap) = Some (ds, ap, [])"
proof -
  have x: "sp @ ap = [] \<or> \<not> is_digit (hd (sp @ ap))"
    using assms(4,5) by (auto simp: is_digit_def)
  have w: "ws0 (sp @ ap) = ap" using assms(4,5) by (auto simp: ws0_def is_space_def)
  have f: "first_lit [''am'', ''pm''] ap = Some (ap, [])" using assms(5) by (auto simp: lit_def)
  show ?thesis
    by (simp only: clock_match_def digits12_app[OF assms(1,2,3) x] option.case prod.case w f)
qed

lemma clock_match_nondigit: "\<not> is_digit c \<Longrightarrow> clock_match (c # cs) = None"
  by (simp add: clock_match_def digits12_def)

lemma clock_search_skip:
  "list_all (\<lambda>c. \<not> is_digit c) pre \<Longrightarrow> clock_search (pre @ s) = clock_search s"
  by (induction pre) (simp_all add: clock_match_nondigit)

lemma clock_search_app:
  assumes "ds \<noteq> []" and "length ds \<le> 2" and "list_all is_digit ds"
    and "sp \<in> {[], '' ''}" and "ap \<in> {''am'', ''pm''}"
  shows "clock_search (ds @ sp @ ap) = Some (ds @ sp @ ap)"
proof -
  from assms(1) obtain c cs where e: "ds @ sp @ ap = c # cs" by (cases ds) auto
  have "clock_search (c # cs) = Some (covered (c # cs) [])"
    using clock_match_app[OF assms] unfolding e by simp
  then show ?thesis unfolding e by (simp add: covered_def)
qed

lemma digits1_app:
  assumes "ds \<noteq> []" and "list_all is_digit ds" and "x = [] \<or> \<not> is_digit (hd x)"
  shows "digits1 (ds @ x) = Some (ds, x)"
proof -
  have t: "takeWhile is_digit x = []" using assms(3) by (cases x) auto
  have d: "dropWhile is_digit x = x" using assms(3) by (cases x) auto
  have a: "\<forall>c\<in>set ds. is_digit c" using assms(2) by (simp add: list_all_iff)
  from a have "takeWhile is_digit (ds @ x) = ds" by (simp add: takeWhile_append2 t)
  moreover from a have "dropWhile is_digit (ds @ x) = x" by (simp add: dropWhile_append2 d)
  ultimately show ?thesis using assms(1) by (simp add: digits1_def)
qed

lemma digits1_nondigit: "\<not> is_digit c \<Longrightarrow> digits1 (c # cs) = None"
  by (simp add: digits1_def)

lemma digits_search_skip:
  "list_all (\<lambda>c. \<not> is_digit c) pre \<Longrightarrow> digits_search (pre @ s) = digits_search s"
  by (induction pre) (simp_all add: digits1_nondigit)

lemma digits_search_app:
  assumes "ds \<noteq> []" and "list_all is_digit ds" and "x = [] \<or> \<not> is_digit (hd x)"
  shows "digits_search (ds @ x) = Some ds"
proof -
  from assms(1) obtain c cs where e: "ds @ x = c # cs" by (cases ds) auto
  show ?thesis using digits1_app[OF assms] unfolding e by simp
qed

lemma not_contains_char: "c \<in> set p \<Longrightarrow> c \<notin> set s \<Longrightarrow> \<not> contains s p"
  unfolding contains_sublist using set_mono_sublist by fastforce

lemma digit_not_letter:
  assumes "list_all is_digit ds"
  shows "CHR ''f'' \<notin> set ds" and "CHR ''h'' \<notin> set ds"
  using assms by (auto simp: list_all_iff is_digit_def)

lemma schedule_time_at:
  assumes "ds \<noteq> []" and "length ds \<le> 2" and "list_all is_digit ds"
    and "sp \<in> {[], '' ''}" and "ap \<in> {''am'', ''pm''}"
  shows "schedule_time now (''at '' @ ds @ sp @ ap) = parse_time_of_day (ds @ sp @ ap) now"
proof -
  have s: "CHR ''f'' \<notin> set (''at '' @ ds @ sp @ ap)" "CHR ''w'' \<notin> set (''at '' @ ds @ sp @ ap)"
    using assms(4,5) digit_not_letter(1)[OF assms(3)] assms(3)
    by (auto simp: list_all_iff is_digit_def)
  have a: "\<not> contains (''at '' @ ds @ sp @ ap) ''after''"
    by (rule not_contains_char[OF _ s(1)]) simp
  have b: "\<not> contains (''at '' @ ds @ sp @ ap) ''tomorrow''"
    by (rule not_contains_char[OF _ s(2)]) simp
  have "clock_search (''at '' @ ds @ sp @ ap) = clock_search (ds @ sp @ ap)"
    by (rule clock_search_skip) (simp add: is_digit_def)
  then have c: "clock_search (''at '' @ ds @ sp @ ap) = Some (ds @ sp @ ap)"
    by (simp only: clock_search_app[OF assms])
  show ?thesis unfolding schedule_time_def by (simp only: a b c if_False option.case)
qed

lemma schedule_time_tomorrow:
  assumes "ds \<noteq> []" and "length ds \<le> 2" and "list_all is_digit ds"
    and "sp \<in> {[], '' ''}" and "ap \<in> {''am'', ''pm''}"
  shows "schedule_time now (''tomorrow at '' @ ds @ sp @ ap)
     = (case add_timedelta now DAY of Inl e \<Rightarrow> Inl e
        | Inr ref \<Rightarrow> parse_time_of_day (ds @ sp @ ap) ref)"
proof -
  have s: "CHR ''f'' \<notin> set (''tomorrow at '' @ ds @ sp @ ap)"
    using assms(4,5) digit_not_letter(1)[OF assms(3)] by auto
  have a: "\<not> contains (''tomorrow at '' @ ds @ sp @ ap) ''after''"
    by (rule not_contains_char[OF _ s]) simp
  have b: "contains (''tomorrow at '' @ ds @ sp @ ap) ''tomorrow''"
    unfolding contains_sublist by (rule prefix_imp_sublist) simp
  have "clock_search (''tomorrow at '' @ ds @ sp @ ap) = clock_search (ds @ sp @ ap)"
    by (rule clock_search_skip) (simp add: is_digit_def)
  then have c: "clock_search (''tomorrow at '' @ ds @ sp @ ap) = Some (ds @ sp @ ap)"
    by (simp only: clock_search_app[OF assms])
  show ?thesis unfolding schedule_time_def by (simp only: a b c if_False if_True option.case)
qed

lemma schedule_time_after:
  assumes "ds \<noteq> []" and "list_all is_digit ds"
  shows "schedule_time now (''after '' @ ds @ '' hours'')
           = parse_duration (int (int_of_digits ds)) ''hours'' now"
    and "schedule_time now (''after '' @ ds @ '' minutes'')
           = parse_duration (int (int_of_digits ds)) ''minutes'' now"
proof -
  have a: "contains (''after '' @ ds @ u) ''after''" for u
    unfolding contains_sublist by (rule prefix_imp_sublist) simp
  have d: "digits_search (''after '' @ ds @ u) = Some ds" if "u = '' hours'' \<or> u = '' minutes''" for u
  proof -
    have "digits_search (''after '' @ ds @ u) = digits_search (ds @ u)"
      by (rule digits_search_skip) (simp add: is_digit_def)
    also have "\<dots> = Some ds"
      using that by (intro digits_search_app[OF assms]) (auto simp: is_digit_def)
    finally show ?thesis .
  qed
  have h1: "contains (''after '' @ ds @ '' hours'') ''hour''"
    unfolding contains_sublist
    using sublist_appendI[of "''hour''" "''after '' @ ds @ '' ''" "''s''"] by simp
  have "CHR ''h'' \<notin> set (''after '' @ ds @ '' minutes'')"
    using digit_not_letter(2)[OF assms(2)] by auto
  then have h2: "\<not> contains (''after '' @ ds @ '' minutes'') ''hour''"
    by (intro not_contains_char[of "CHR ''h''"]) simp_all
  show "schedule_time now (''after '' @ ds @ '' hours'')
           = parse_duration (int (int_of_digits ds)) ''hours'' now"
    unfolding schedule_time_def by (simp only: a d h1 if_True option.case simp_thms)
  show "schedule_time now (''after '' @ ds @ '' minutes'')
           = parse_duration (int (int_of_digits ds)) ''minutes'' now"
    unfolding schedule_time_def by (simp only: a d h2 if_True if_False option.case simp_thms)
qed

lemma interpret_schedule:
  assumes "device_search (join_space (tokenize text)) = None"
    and "schedule_search (join_space (tokenize text)) = Some (g2, g3)"
  shows "interpret_text now text =
     (case schedule_time now g3 of
        Inl e \<Rightarrow> Inl e
      | Inr t \<Rightarrow> Inr \<lparr>command_text = text, action_type = Some Schedule, device = None,
                      task = Some (strip g2), scheduled_time = Some t, state = None\<rparr>)"
  unfolding interpret_text_def Let_def assms by (simp split: sum.splits)

lemma at_hour_next_day: "at_hour (next_day d) h = next_day (at_hour d h)"
  by (simp add: at_hour_def next_day_def)

lemma valid_next_day: "valid_datetime d \<Longrightarrow> ordinal d < MAXORDINAL \<Longrightarrow> valid_datetime (next_day d)"
  by (simp add: valid_datetime_def next_day_def)

lemma schedule_at_resolution:
  assumes "valid_datetime now" and "ds \<noteq> []" and "length ds \<le> 2" and "list_all is_digit ds"
    and "sp \<in> {[], '' ''}" and "ap \<in> {''am'', ''pm''}"
    and "1 \<le> int_of_digits ds" and "int_of_digits ds \<le> 12"
  shows "(to_us now < to_us (at_hour now (clock_hour (int_of_digits ds) ap))
            \<longrightarrow> schedule_time now (''at '' @ ds @ sp @ ap)
                  = Inr (at_hour now (clock_hour (int_of_digits ds) ap)))
       \<and> (to_us (at_hour now (clock_hour (int_of_digits ds) ap)) \<le> to_us now \<and> ordinal now < MAXORDINAL
            \<longrightarrow> schedule_time now (''at '' @ ds @ sp @ ap)
                  = Inr (next_day (at_hour now (clock_hour (int_of_digits ds) ap)))
              \<and> to_us now < to_us (next_day (at_hour now (clock_hour (int_of_digits ds) ap))))"
  using parse_time_resolution[OF assms(1) clock_match_app[OF assms(2-6)] assms(7,8)]
  unfolding schedule_time_at[OF assms(2-6)] by blast

lemma schedule_tomorrow_resolution:
  assumes "valid_datetime now" and "ds \<noteq> []" and "length ds \<le> 2" and "list_all is_digit ds"
    and "sp \<in> {[], '' ''}" and "ap \<in> {''am'', ''pm''}"
    and "1 \<le> int_of_digits ds" and "int_of_digits ds \<le> 12"
    and "to_us now < to_us (at_hour now (clock_hour (int_of_digits ds) ap))"
    and "ordinal now < MAXORDINAL"
  shows "schedule_time now (''tomorrow at '' @ ds @ sp @ ap)
           = Inr (next_day (at_hour now (clock_hour (int_of_digits ds) ap)))"
proof -
  define h where "h = clock_hour (int_of_digits ds) ap"
  have v: "1 \<le> ordinal now" "hour now < 24" "minute now < 60" "second now < 60" "microsecond now < 1000000"
    using assms(1) by (simp_all add: valid_datetime_def)
  have a: "add_timedelta now DAY = Inr (next_day now)"
    by (rule add_one_day[OF v(1) assms(10) v(2-5)])
  have lt: "to_us (next_day now) < to_us (at_hour (next_day now) h)"
    using assms(9) unfolding at_hour_next_day to_us_next_day h_def by simp
  from parse_time_resolution[OF valid_next_day[OF assms(1,10)] clock_match_app[OF assms(2-6)] assms(7,8)]
  have "to_us (next_day now) < to_us (at_hour (next_day now) h)
      \<longrightarrow> parse_time_of_day (ds @ sp @ ap) (next_day now) = Inr (at_hour (next_day now) h)"
    unfolding h_def by blast
  with lt have "parse_time_of_day (ds @ sp @ ap) (next_day now) = Inr (next_day (at_hour now h))"
    by (simp add: at_hour_next_day)
  then show ?thesis
    unfolding schedule_time_tomorrow[OF assms(2-6)] a h_def by simp
qed

lemma schedule_after_resolution:
  assumes "valid_datetime now" and "ds \<noteq> []" and "list_all is_digit ds"
  shows "(DAY \<le> to_us now + int (int_of_digits ds) * HOUR
          \<and> to_us now + int (int_of_digits ds) * HOUR < (int MAXORDINAL + 1) * DAY
            \<longrightarrow> (\<exists>d. schedule_time now (''after '' @ ds @ '' hours'') = Inr d \<and> valid_datetime d
                    \<and> to_us d = to_us now + int (int_of_digits ds) * HOUR))
       \<and> (DAY \<le> to_us now + int (int_of_digits ds) * MINUTE
          \<and> to_us now + int (int_of_digits ds) * MINUTE < (int MAXORDINAL + 1) * DAY
            \<longrightarrow> (\<exists>d. schedule_time now (''after '' @ ds @ '' minutes'') = Inr d \<and> valid_datetime d
                    \<and> to_us d = to_us now + int (int_of_digits ds) * MINUTE))"
proof -
  have dur: "\<exists>d. add_timedelta now x = Inr d \<and> valid_datetime d \<and> to_us d = to_us now + x"
    if "DAY \<le> to_us now + x \<and> to_us now + x < (int MAXORDINAL + 1) * DAY" for x
  proof -
    from that have "0 \<le> to_us now + x" by (simp add: DAY_def)
    with that show ?thesis
      by (simp add: add_timedelta_def Let_def valid_of_us to_us_of_us)
  qed
  have hc: "contains ''hours'' ''hour''" "\<not> contains ''minutes'' ''hour''" by code_simp+
  show ?thesis
    unfolding schedule_time_after[OF assms(2,3)] parse_duration_def
    using dur[of "int (int_of_digits ds) * HOUR"] dur[of "int (int_of_digits ds) * MINUTE"]
    by (simp add: hc)
qed

lemma interpret_schedule_result:
  assumes "device_search (join_space (tokenize text)) = None"
    and "schedule_search (join_space (tokenize text)) = Some (g2, g3)"
    and "schedule_time now g3 = Inr t"
  shows "interpret_text now text = Inr (schedule_result text g2 t)"
  unfolding interpret_schedule[OF assms(1,2)] assms(3) schedule_result_def by simp
section \<open>The claims about the parser\<close>

text \<open>
  Claim C1. The top-level parse (\<open>parse_command\<close> of codeNew.py, \<open>parse\<close> of code.py)
  accepts exactly when evaluating \<open>COMMAND\<close> from position 0 with an empty trace succeeds
  and the returned position is the number of tokens; a successful parse of a prefix that
  leaves tokens behind is rejected. With fuel above the depth of the table (5 and 7) the
  call returns.
\<close>

theorem parse_accepts_iff:
  "(parse_command n tokens = Some (True, tr)
      \<longleftrightarrow> parse_symbol n GRAMMAR ''COMMAND'' tokens 0 [] = Some (True, length tokens, tr))
   \<and> (parse n tokens = Some True
      \<longleftrightarrow> (\<exists>u. parse_symbol n grammar_code ''COMMAND'' tokens 0 [] = Some (True, length tokens, u)))
   \<and> (parse_symbol n GRAMMAR ''COMMAND'' tokens 0 [] = Some (True, idx, tr) \<and> idx \<noteq> length tokens
      \<longrightarrow> parse_command n tokens = Some (False, tr))
   \<and> (parse_symbol n grammar_code ''COMMAND'' tokens 0 [] = Some (True, idx', tr') \<and> idx' \<noteq> length tokens
      \<longrightarrow> parse n tokens = Some False)
   \<and> (5 \<le> n \<longrightarrow> parse_command n tokens \<noteq> None)
   \<and> (7 \<le> n \<longrightarrow> parse n tokens \<noteq> None)"
proof -
  have a: "parse_command n tokens = Some (True, tr)
      \<longleftrightarrow> parse_symbol n GRAMMAR ''COMMAND'' tokens 0 [] = Some (True, length tokens, tr)"
    by (auto simp: parse_command_def parse_with_def split: option.splits)
  have b: "parse n tokens = Some True
      \<longleftrightarrow> (\<exists>u. parse_symbol n grammar_code ''COMMAND'' tokens 0 [] = Some (True, length tokens, u))"
    by (auto simp: parse_def parse_with_def split: option.splits)
  have c: "parse_symbol n GRAMMAR ''COMMAND'' tokens 0 [] = Some (True, idx, tr) \<and> idx \<noteq> length tokens
      \<longrightarrow> parse_command n tokens = Some (False, tr)"
    by (simp add: parse_command_def parse_with_def)
  have d: "parse_symbol n grammar_code ''COMMAND'' tokens 0 [] = Some (True, idx', tr') \<and> idx' \<noteq> length tokens
      \<longrightarrow> parse n tokens = Some False"
    by (simp add: parse_def parse_with_def)
  have e: "5 \<le> n \<longrightarrow> parse_command n tokens \<noteq> None"
    using parse_symbol_GRAMMAR_total[of n "''COMMAND''" tokens 0 "[]"]
    by (auto simp: parse_command_def parse_with_def split: option.splits)
  have f: "7 \<le> n \<longrightarrow> parse n tokens \<noteq> None"
    using parse_symbol_code_total[of n "''COMMAND''" tokens 0 "[]"]
    by (auto simp: parse_def parse_with_def split: option.splits)
  from a b c d e f show ?thesis by blast
qed

theorem parse_accepts_iff_witness:
  "\<exists>tr u. parse_symbol 7 GRAMMAR ''COMMAND'' [''turn'', ''on'', ''fan'', ''now''] 0 [] = Some (True, 3, tr)
     \<and> (3::nat) \<noteq> length [''turn'', ''on'', ''fan'', ''now'']
     \<and> parse_command 7 [''turn'', ''on'', ''fan'', ''now''] = Some (False, tr)
     \<and> parse_symbol 7 grammar_code ''COMMAND'' [''turn'', ''on'', ''fan'', ''now''] 0 [] = Some (True, 3, u)
     \<and> parse 7 [''turn'', ''on'', ''fan'', ''now''] = Some False
     \<and> (5::nat) \<le> 7 \<and> (7::nat) \<le> 7"
proof -
  define toks where "toks = [''turn'', ''on'', ''fan'', ''now'']"
  have len: "length toks = 4" by (simp add: toks_def)
  have "map_option (\<lambda>(b, k, t). (b, k)) (parse_symbol 7 GRAMMAR ''COMMAND'' toks 0 []) = Some (True, 3)"
    unfolding toks_def by code_simp
  from result_cases[OF this] obtain tr where
    1: "parse_symbol 7 GRAMMAR ''COMMAND'' toks 0 [] = Some (True, 3, tr)" ..
  have "map_option (\<lambda>(b, k, t). (b, k)) (parse_symbol 7 grammar_code ''COMMAND'' toks 0 []) = Some (True, 3)"
    unfolding toks_def by code_simp
  from result_cases[OF this] obtain u where
    2: "parse_symbol 7 grammar_code ''COMMAND'' toks 0 [] = Some (True, 3, u)" ..
  have ne: "(3::nat) \<noteq> length toks" by (simp add: len)
  note t = parse_accepts_iff[of 7 toks tr 3 3 u]
  from t 1 ne have 3: "parse_command 7 toks = Some (False, tr)" by blast
  from t 2 ne have 4: "parse 7 toks = Some False" by blast
  have "parse_symbol 7 GRAMMAR ''COMMAND'' toks 0 [] = Some (True, 3, tr)
     \<and> (3::nat) \<noteq> length toks
     \<and> parse_command 7 toks = Some (False, tr)
     \<and> parse_symbol 7 grammar_code ''COMMAND'' toks 0 [] = Some (True, 3, u)
     \<and> parse 7 toks = Some False
     \<and> (5::nat) \<le> 7 \<and> (7::nat) \<le> 7"
    using 1 2 3 4 ne by simp
  then show ?thesis unfolding toks_def by blast
qed

text \<open>
  Claim C2. The productions of a nonterminal are tried in table order and the first one
  whose members all succeed gives the result: when every production before \<open>A\<close> fails
  from position \<open>i\<close> and \<open>A\<close> succeeds there with position \<open>j\<close> and trace lines \<open>tA\<close>, the
  nonterminal returns success at \<open>j\<close>, its trace ends with the expansion of \<open>A\<close> followed
  by \<open>tA\<close>, and the result is the one of the table cut off after \<open>A\<close>: no later
  alternative is looked at, whether or not it would succeed.
\<close>

theorem first_match:
  assumes "map_of g symb = Some (pre @ A # post)"
    and "\<forall>p \<in> set pre. \<exists>k t. parse_seq n g tokens p i [] = Some (False, k, t)"
    and "parse_seq n g tokens A i [] = Some (True, j, tA)"
  shows "\<exists>t0. parse_symbol (Suc n) g symb tokens i tr = Some (True, j, tr @ t0 @ Expanding symb A # tA)
            \<and> parse_prods n g symb tokens i (pre @ [A]) tr = Some (True, j, tr @ t0 @ Expanding symb A # tA)"
proof -
  from parse_prods_first_match[OF assms(2,3), of symb tr]
  obtain t0 where t0: "\<forall>post. parse_prods n g symb tokens i (pre @ A # post) tr
            = Some (True, j, tr @ t0 @ Expanding symb A # tA)" by blast
  from t0 have "parse_prods n g symb tokens i (pre @ A # post) tr
            = Some (True, j, tr @ t0 @ Expanding symb A # tA)" by blast
  with assms(1) have "parse_symbol (Suc n) g symb tokens i tr = Some (True, j, tr @ t0 @ Expanding symb A # tA)"
    by simp
  moreover from t0 have "parse_prods n g symb tokens i (pre @ [A]) tr
            = Some (True, j, tr @ t0 @ Expanding symb A # tA)" by blast
  ultimately show ?thesis by blast
qed

theorem first_match_witness:
  "map_of [(''S'', [[''x''], [''a''], [''a'', ''b'']])] ''S'' = Some ([[''x'']] @ [''a''] # [[''a'', ''b'']])
   \<and> parse_seq 1 [(''S'', [[''x''], [''a''], [''a'', ''b'']])] [''a'', ''b''] [''x''] 0 []
        = Some (False, 0, [Expected ''x'' (Some ''a'')])
   \<and> parse_seq 1 [(''S'', [[''x''], [''a''], [''a'', ''b'']])] [''a'', ''b''] [''a''] 0 []
        = Some (True, 1, [Matched ''a''])
   \<and> parse_seq 1 [(''S'', [[''x''], [''a''], [''a'', ''b'']])] [''a'', ''b''] [''a'', ''b''] 0 []
        = Some (True, 2, [Matched ''a'', Matched ''b''])
   \<and> parse_symbol (Suc 1) [(''S'', [[''x''], [''a''], [''a'', ''b'']])] ''S'' [''a'', ''b''] 0 []
        = Some (True, 1, [Expanding ''S'' [''x''], Expected ''x'' (Some ''a''), Backtrack ''S'' [''x''],
                          Expanding ''S'' [''a''], Matched ''a''])"
proof -
  let ?g = "[(''S'', [[''x''], [''a''], [''a'', ''b'']])]"
  have 1: "map_of ?g ''S'' = Some ([[''x'']] @ [''a''] # [[''a'', ''b'']])" by simp
  have 2: "\<forall>p \<in> set [[''x'']]. \<exists>k t. parse_seq 1 ?g [''a'', ''b''] p 0 [] = Some (False, k, t)"
    by simp
  have 3: "parse_seq 1 ?g [''a'', ''b''] [''a''] 0 [] = Some (True, 1, [Matched ''a''])" by simp
  have 4: "parse_seq 1 ?g [''a'', ''b''] [''a'', ''b''] 0 [] = Some (True, 2, [Matched ''a'', Matched ''b''])"
    by simp
  from first_match[OF 1 2 3, of "[]"]
  obtain t0 where "parse_symbol (Suc 1) ?g ''S'' [''a'', ''b''] 0 [] = Some (True, 1, [] @ t0 @ Expanding ''S'' [''a''] # [Matched ''a''])"
    by blast
  moreover have "parse_symbol (Suc 1) ?g ''S'' [''a'', ''b''] 0 []
        = Some (True, 1, [Expanding ''S'' [''x''], Expected ''x'' (Some ''a''), Backtrack ''S'' [''x''],
                          Expanding ''S'' [''a''], Matched ''a''])" by simp
  moreover have "parse_seq 1 ?g [''a'', ''b''] [''x''] 0 [] = Some (False, 0, [Expected ''x'' (Some ''a'')])"
    by simp
  ultimately show ?thesis using 1 3 4 by simp
qed

text \<open>
  Claim C3, as stated: for an accepted token sequence the \<open>Matched\<close> lines of the trace,
  read in order, are exactly the input tokens. It fails: \<open>turn on fan\<close> is accepted by
  the table of codeNew.py, and its trace holds \<open>Matched fan\<close> twice, once from the
  production \<open>DEVICE_NP in ROOM\<close> that is abandoned at the end of input and once from the
  production \<open>DEVICE_NP\<close> that succeeds.
\<close>

theorem matched_reconstructs_counterexample:
  "matched_of_run 5 [''turn'', ''on'', ''fan''] = Some (True, [''turn'', ''on'', ''fan'', ''fan''])
   \<and> [''turn'', ''on'', ''fan'', ''fan''] \<noteq> [''turn'', ''on'', ''fan'']"
proof -
  have "matched_of_run 5 [''turn'', ''on'', ''fan''] = Some (True, [''turn'', ''on'', ''fan'', ''fan''])"
    by code_simp
  then show ?thesis by simp
qed

text \<open>
  Claim C3, amended: for an accepted token sequence the returned position is the number of
  tokens, and the input tokens are a subsequence, in order, of the terminals of the
  \<open>Matched\<close> lines of the trace. The trace is a log of the whole search, so it also
  holds the \<open>Matched\<close> lines of productions that were abandoned later.
  \<open>parse_command n\<close> is \<open>parse_with n GRAMMAR\<close>.
\<close>

theorem accepted_matched_subseq:
  assumes "parse_with n g tokens = Some (True, tr)"
  shows "parse_symbol n g ''COMMAND'' tokens 0 [] = Some (True, length tokens, tr)
         \<and> subseq tokens (matched tr)"
proof -
  from assms have r: "parse_symbol n g ''COMMAND'' tokens 0 [] = Some (True, length tokens, tr)"
    by (auto simp: parse_with_def split: option.splits)
  from parse_matched(1)[of n g "''COMMAND''" tokens 0 "[]" "length tokens" tr] r
  have "subseq tokens (matched tr)" by simp
  with r show ?thesis by simp
qed

theorem accepted_matched_subseq_witness:
  "\<exists>tr. parse_with 5 GRAMMAR [''turn'', ''on'', ''fan''] = Some (True, tr)
     \<and> parse_symbol 5 GRAMMAR ''COMMAND'' [''turn'', ''on'', ''fan''] 0 [] = Some (True, length [''turn'', ''on'', ''fan''], tr)
     \<and> subseq [''turn'', ''on'', ''fan''] (matched tr)
     \<and> matched tr = [''turn'', ''on'', ''fan'', ''fan'']"
proof -
  define toks where "toks = [''turn'', ''on'', ''fan'']"
  have "map_option (\<lambda>(b, t). (b, matched t)) (parse_with 5 GRAMMAR toks) = Some (True, [''turn'', ''on'', ''fan'', ''fan''])"
    unfolding toks_def by code_simp
  from verdict_cases[OF this] obtain tr where
    1: "parse_with 5 GRAMMAR toks = Some (True, tr)" and 2: "matched tr = [''turn'', ''on'', ''fan'', ''fan'']"
    by blast
  from accepted_matched_subseq[OF 1] 1 2
  have "parse_with 5 GRAMMAR toks = Some (True, tr)
     \<and> parse_symbol 5 GRAMMAR ''COMMAND'' toks 0 [] = Some (True, length toks, tr)
     \<and> subseq toks (matched tr)
     \<and> matched tr = [''turn'', ''on'', ''fan'', ''fan'']" by blast
  then show ?thesis unfolding toks_def by blast
qed

text \<open>
  Claim C7. Whenever \<open>parse_symbol\<close> reports failure, for a terminal that does not match
  or a nonterminal all of whose productions fail, the position it returns is the position
  \<open>i\<close> it was called with. On the two tables of the program the call returns, for every
  symbol, once the fuel is above the depth of the table.
\<close>

theorem failure_restores_position:
  "(parse_symbol n g symb tokens i tr = Some (False, j, u) \<longrightarrow> j = i)
   \<and> (5 \<le> n \<longrightarrow> parse_symbol n GRAMMAR symb tokens i tr \<noteq> None)
   \<and> (7 \<le> n \<longrightarrow> parse_symbol n grammar_code symb tokens i tr \<noteq> None)"
  using parse_shape(1)[of n g symb tokens i tr False j u]
    parse_symbol_GRAMMAR_total[of n symb tokens i tr]
    parse_symbol_code_total[of n symb tokens i tr]
  by blast

theorem failure_restores_position_witness:
  "parse_symbol 7 GRAMMAR ''ROOM'' [''living'', ''x''] 0 [] =
     Some (False, 0,
       [Expanding ''ROOM'' [''living'', ''room''], Matched ''living'', Expected ''room'' (Some ''x''),
        Backtrack ''ROOM'' [''living'', ''room''],
        Expanding ''ROOM'' [''kitchen''], Expected ''kitchen'' (Some ''living''),
        Backtrack ''ROOM'' [''kitchen''],
        Expanding ''ROOM'' [''bedroom''], Expected ''bedroom'' (Some ''living''),
        Backtrack ''ROOM'' [''bedroom''],
        Expanding ''ROOM'' [''bathroom''], Expected ''bathroom'' (Some ''living''),
        Backtrack ''ROOM'' [''bathroom'']])
   \<and> (5::nat) \<le> 7 \<and> (7::nat) \<le> 7
   \<and> parse_symbol 7 GRAMMAR ''ROOM'' [''living'', ''x''] 0 [] \<noteq> None
   \<and> parse_symbol 7 grammar_code ''ROOM'' [''living'', ''x''] 0 [] \<noteq> None"
proof -
  have 1: "parse_symbol 7 GRAMMAR ''ROOM'' [''living'', ''x''] 0 [] =
     Some (False, 0,
       [Expanding ''ROOM'' [''living'', ''room''], Matched ''living'', Expected ''room'' (Some ''x''),
        Backtrack ''ROOM'' [''living'', ''room''],
        Expanding ''ROOM'' [''kitchen''], Expected ''kitchen'' (Some ''living''),
        Backtrack ''ROOM'' [''kitchen''],
        Expanding ''ROOM'' [''bedroom''], Expected ''bedroom'' (Some ''living''),
        Backtrack ''ROOM'' [''bedroom''],
        Expanding ''ROOM'' [''bathroom''], Expected ''bathroom'' (Some ''living''),
        Backtrack ''ROOM'' [''bathroom'']])"
    by code_simp
  have 2: "(5::nat) \<le> 7" "(7::nat) \<le> 7" by simp_all
  from failure_restores_position[of 7 GRAMMAR "''ROOM''" "[''living'', ''x'']" 0 "[]" 0] 1 2
  show ?thesis by blast
qed

text \<open>
  Claim C8. Called at a position \<open>i\<close> within the tokens, \<open>parse_symbol\<close> returns a
  position between \<open>i\<close> and the number of tokens; the index that the top-level parse
  compares with \<open>len(tokens)\<close> is never beyond it, on both tables.
\<close>

theorem position_in_bounds:
  assumes "i \<le> length tokens"
  shows "(parse_symbol n g symb tokens i tr = Some (b, j, u) \<longrightarrow> i \<le> j \<and> j \<le> length tokens)
     \<and> (5 \<le> n \<longrightarrow>
          (\<exists>ok idx t. parse_symbol n GRAMMAR ''COMMAND'' tokens 0 [] = Some (ok, idx, t) \<and> idx \<le> length tokens))
     \<and> (7 \<le> n \<longrightarrow>
          (\<exists>ok idx t. parse_symbol n grammar_code ''COMMAND'' tokens 0 [] = Some (ok, idx, t) \<and> idx \<le> length tokens))"
proof -
  have a: "parse_symbol n g symb tokens i tr = Some (b, j, u) \<longrightarrow> i \<le> j \<and> j \<le> length tokens"
    using parse_shape(1)[of n g symb tokens i tr b j u] assms by blast
  have top: "\<exists>ok idx t. parse_symbol n g' ''COMMAND'' tokens 0 [] = Some (ok, idx, t) \<and> idx \<le> length tokens"
    if "parse_symbol n g' ''COMMAND'' tokens 0 [] \<noteq> None" for g'
  proof -
    from that obtain ok idx t where r: "parse_symbol n g' ''COMMAND'' tokens 0 [] = Some (ok, idx, t)"
      by (cases "parse_symbol n g' ''COMMAND'' tokens 0 []") auto
    with parse_shape(1)[of n g' "''COMMAND''" tokens 0 "[]" ok idx t] show ?thesis by simp
  qed
  from a top[OF parse_symbol_GRAMMAR_total] top[OF parse_symbol_code_total]
  show ?thesis by blast
qed

theorem position_in_bounds_witness:
  "(1::nat) \<le> length [''on'', ''the'', ''kitchen'', ''fan'']
   \<and> (5::nat) \<le> 7 \<and> (7::nat) \<le> 7
   \<and> (\<exists>u. parse_symbol 7 GRAMMAR ''DEVICE'' [''on'', ''the'', ''kitchen'', ''fan''] 1 [] = Some (True, 4, u))
   \<and> (1::nat) \<le> 4 \<and> (4::nat) \<le> length [''on'', ''the'', ''kitchen'', ''fan'']
   \<and> (\<exists>ok idx t. parse_symbol 7 GRAMMAR ''COMMAND'' [''on'', ''the'', ''kitchen'', ''fan''] 0 [] = Some (ok, idx, t)
          \<and> idx \<le> length [''on'', ''the'', ''kitchen'', ''fan''])
   \<and> (\<exists>ok idx t. parse_symbol 7 grammar_code ''COMMAND'' [''on'', ''the'', ''kitchen'', ''fan''] 0 [] = Some (ok, idx, t)
          \<and> idx \<le> length [''on'', ''the'', ''kitchen'', ''fan''])"
proof -
  define toks where "toks = [''on'', ''the'', ''kitchen'', ''fan'']"
  have len: "(1::nat) \<le> length toks" by (simp add: toks_def)
  have "map_option (\<lambda>(b, k, t). (b, k)) (parse_symbol 7 GRAMMAR ''DEVICE'' toks 1 []) = Some (True, 4)"
    unfolding toks_def by code_simp
  from result_cases[OF this] obtain u where
    1: "parse_symbol 7 GRAMMAR ''DEVICE'' toks 1 [] = Some (True, 4, u)" ..
  have 2: "(5::nat) \<le> 7" "(7::nat) \<le> 7" by simp_all
  note t = position_in_bounds[OF len, of 7 GRAMMAR "''DEVICE''" "[]" True 4 u]
  from t 1 have 3: "(1::nat) \<le> 4 \<and> (4::nat) \<le> length toks" by blast
  from t 2 have 4: "\<exists>ok idx t. parse_symbol 7 GRAMMAR ''COMMAND'' toks 0 [] = Some (ok, idx, t) \<and> idx \<le> length toks"
    by blast
  from t 2 have 5: "\<exists>ok idx t. parse_symbol 7 grammar_code ''COMMAND'' toks 0 [] = Some (ok, idx, t) \<and> idx \<le> length toks"
    by blast
  from len 2 1 3 4 5 have "(1::nat) \<le> length toks
   \<and> (5::nat) \<le> 7 \<and> (7::nat) \<le> 7
   \<and> (\<exists>u. parse_symbol 7 GRAMMAR ''DEVICE'' toks 1 [] = Some (True, 4, u))
   \<and> (1::nat) \<le> 4 \<and> (4::nat) \<le> length toks
   \<and> (\<exists>ok idx t. parse_symbol 7 GRAMMAR ''COMMAND'' toks 0 [] = Some (ok, idx, t) \<and> idx \<le> length toks)
   \<and> (\<exists>ok idx t. parse_symbol 7 grammar_code ''COMMAND'' toks 0 [] = Some (ok, idx, t) \<and> idx \<le> length toks)"
    by blast
  then show ?thesis unfolding toks_def .
qed

text \<open>
  Claim C9. The parser is a function of the grammar and the tokens: it starts from a fresh
  trace list and reads no other state. In the model the only other argument is the fuel,
  and on a grammar without cycles any two runs with enough fuel return, with the same
  verdict, the same index and the same trace, line for line.
\<close>

theorem parse_deterministic:
  assumes "ranked g r" and "r ''COMMAND'' < m" and "r ''COMMAND'' < n"
  shows "parse_result m g tokens = parse_result n g tokens
     \<and> parse_with m g tokens = parse_with n g tokens
     \<and> parse_result n g tokens \<noteq> None"
proof -
  have some: "parse_symbol k g ''COMMAND'' tokens 0 [] \<noteq> None" if "r ''COMMAND'' < k" for k
    using parse_total(1)[of g r "''COMMAND''" k tokens 0 "[]"] assms(1) that by blast
  have eq: "parse_symbol m g ''COMMAND'' tokens 0 [] = parse_symbol n g ''COMMAND'' tokens 0 []"
  proof -
    from some[OF assms(2)] obtain x where x: "parse_symbol m g ''COMMAND'' tokens 0 [] = Some x" by auto
    from some[OF assms(3)] obtain y where y: "parse_symbol n g ''COMMAND'' tokens 0 [] = Some y" by auto
    show ?thesis
    proof (cases "m \<le> n")
      case True
      from parse_fuel_mono[OF x True] y x show ?thesis by simp
    next
      case False
      then have "n \<le> m" by simp
      from parse_fuel_mono[OF y this] x y show ?thesis by simp
    qed
  qed
  from eq some[OF assms(3)] show ?thesis by (simp add: parse_result_def parse_with_def)
qed

theorem parse_deterministic_witness:
  "ranked GRAMMAR rank_GRAMMAR \<and> rank_GRAMMAR ''COMMAND'' < 5 \<and> rank_GRAMMAR ''COMMAND'' < 9
   \<and> parse_result 5 GRAMMAR [''turn'', ''on'', ''fan''] = parse_result 9 GRAMMAR [''turn'', ''on'', ''fan'']
   \<and> parse_with 5 GRAMMAR [''turn'', ''on'', ''fan''] = parse_with 9 GRAMMAR [''turn'', ''on'', ''fan'']
   \<and> parse_result 9 GRAMMAR [''turn'', ''on'', ''fan''] \<noteq> None"
proof -
  have 1: "rank_GRAMMAR ''COMMAND'' < 5" "rank_GRAMMAR ''COMMAND'' < 9" by (simp_all add: rank_GRAMMAR_def)
  from parse_deterministic[OF ranked_GRAMMAR 1, of "[''turn'', ''on'', ''fan'']"] ranked_GRAMMAR 1
  show ?thesis by blast
qed

section \<open>The claims about the interpreter, the dispatcher and the device controller\<close>

text \<open>
  Claim C6. When \<open>interpret\<close> returns a device intent, \<open>handle\<close> calls
  \<open>set_device\<close> with the extracted device and state whatever the verdict \<open>ok\<close> of the
  grammar is: the device dict after the call and the reported result are those of
  \<open>set_device\<close>, and the verdict only appears as the field \<open>ok\<close> of the answer, next
  to the trace.
\<close>

theorem device_intent_executes:
  assumes "5 \<le> n" and "interpret_text now text = Inr sm" and "action_type sm = Some Device"
  shows "\<exists>ok tr d s a'. parse_command n (tokenize text) = Some (ok, tr)
           \<and> device sm = Some d \<and> state sm = Some s
           \<and> handle n now text a =
               Some (Inr (\<lparr>r_ok = ok, r_trace = tr,
                           r_result = (if fst (set_device (ctrl a) d s) then DeviceExecuted
                                       else UnknownDevice)\<rparr>, a'))
           \<and> ctrl a' = snd (set_device (ctrl a) d s)"
proof -
  from parse_symbol_GRAMMAR_total[OF assms(1), of "''COMMAND''" "tokenize text" 0 "[]"]
  obtain ok tr where p: "parse_command n (tokenize text) = Some (ok, tr)"
    by (auto simp: parse_command_def parse_with_def split: option.splits)
  from interpret_device_fields[OF assms(2,3)]
  obtain d s where ds: "device sm = Some d" "state sm = Some s" by blast
  obtain dn devs where sd: "set_device (ctrl a) d s = (dn, devs)" by (cases "set_device (ctrl a) d s")
  have "handle n now text a =
      Some (Inr (\<lparr>r_ok = ok, r_trace = tr, r_result = (if dn then DeviceExecuted else UnknownDevice)\<rparr>,
        a\<lparr>ctrl := devs, events := events a @ [\<lparr>ev_command_text = text, ev_action_type = Device,
            ev_target = d, ev_scheduled_time = None, ev_status = (if dn then Done else Failed),
            ev_meta_state = Some s\<rparr>]\<rparr>))"
    by (simp add: handle_def p assms(2,3) ds sd)
  with p ds sd show ?thesis by simp
qed

theorem device_intent_executes_witness:
  "(5::nat) \<le> 5
   \<and> interpret_text \<lparr>ordinal = 738000, hour = 10, minute = 30, second = 15, microsecond = 5\<rparr>
         ''turn on kitchen fan''
       = Inr \<lparr>command_text = ''turn on kitchen fan'', action_type = Some Device,
               device = Some ''kitchen fan'', task = None, scheduled_time = None, state = Some ''on''\<rparr>
   \<and> (\<exists>tr a'. parse_command 5 (tokenize ''turn on kitchen fan'') = Some (False, tr)
         \<and> handle 5 \<lparr>ordinal = 738000, hour = 10, minute = 30, second = 15, microsecond = 5\<rparr>
               ''turn on kitchen fan'' \<lparr>ctrl = initial_devices, events = [], scheduler = []\<rparr>
             = Some (Inr (\<lparr>r_ok = False, r_trace = tr, r_result = DeviceExecuted\<rparr>, a'))
         \<and> ctrl a' ''kitchen fan'' = Some ''on'')"
proof -
  define now0 where "now0 = \<lparr>ordinal = 738000, hour = 10, minute = 30, second = 15, microsecond = 5\<rparr>"
  define a0 where "a0 = \<lparr>ctrl = initial_devices, events = [], scheduler = []\<rparr>"
  define sm where "sm = \<lparr>command_text = ''turn on kitchen fan'', action_type = Some Device,
               device = Some ''kitchen fan'', task = None, scheduled_time = None, state = Some ''on''\<rparr>"
  have j: "join_space (tokenize ''turn on kitchen fan'') = ''turn on kitchen fan''" by code_simp
  have m: "device_search ''turn on kitchen fan'' = Some (''on'', Some ''kitchen '', ''fan'')" by code_simp
  have st: "strip ''kitchen '' = ''kitchen''" "strip ''kitchen fan'' = ''kitchen fan''" by code_simp+
  have i: "interpret_text now0 ''turn on kitchen fan'' = Inr sm"
    unfolding interpret_text_def Let_def j m by (simp add: st sm_def)
  have at: "action_type sm = Some Device" by (simp add: sm_def)
  have "map_option fst (parse_command 5 (tokenize ''turn on kitchen fan'')) = Some False"
    by code_simp
  then obtain tr0 where p: "parse_command 5 (tokenize ''turn on kitchen fan'') = Some (False, tr0)"
    by (cases "parse_command 5 (tokenize ''turn on kitchen fan'')") auto
  have n: "replace_two_spaces (strip ''kitchen fan'') = ''kitchen fan''" by code_simp
  have sd: "set_device (ctrl a0) ''kitchen fan'' ''on'' = (True, initial_devices(''kitchen fan'' \<mapsto> ''on''))"
    by (simp add: set_device_def n initial_devices_def a0_def)
  from device_intent_executes[OF order_refl i at, of a0]
  obtain ok tr d s a' where h: "parse_command 5 (tokenize ''turn on kitchen fan'') = Some (ok, tr)"
      "device sm = Some d" "state sm = Some s"
      "handle 5 now0 ''turn on kitchen fan'' a0 =
         Some (Inr (\<lparr>r_ok = ok, r_trace = tr,
                     r_result = (if fst (set_device (ctrl a0) d s) then DeviceExecuted else UnknownDevice)\<rparr>, a'))"
      "ctrl a' = snd (set_device (ctrl a0) d s)"
    by blast
  from h(1) p have ok: "ok = False" "tr = tr0" by simp_all
  from h(2,3) have ds: "d = ''kitchen fan''" "s = ''on''" by (simp_all add: sm_def)
  from h(4) have 1: "handle 5 now0 ''turn on kitchen fan'' a0 =
         Some (Inr (\<lparr>r_ok = False, r_trace = tr0, r_result = DeviceExecuted\<rparr>, a'))"
    unfolding ok ds sd by simp
  from h(5) have 2: "ctrl a' ''kitchen fan'' = Some ''on''" unfolding ds sd by simp
  from p 1 2 have "\<exists>tr a'. parse_command 5 (tokenize ''turn on kitchen fan'') = Some (False, tr)
         \<and> handle 5 now0 ''turn on kitchen fan'' a0
             = Some (Inr (\<lparr>r_ok = False, r_trace = tr, r_result = DeviceExecuted\<rparr>, a'))
         \<and> ctrl a' ''kitchen fan'' = Some ''on''" by blast
  with i show ?thesis unfolding now0_def a0_def sm_def by simp
qed

text \<open>
  Claim C10. \<open>set_device\<close> changes no device but the named one: in codeNew.py the
  named device is the name after \<open>strip\<close> and the replacement of double spaces, in
  hybrid_smart_home.py the name as it is. A call that returns \<open>False\<close>, which is the case
  exactly when the name is no key of the dict, leaves the whole dict as it was.
\<close>

theorem set_device_frame:
  assumes "set_device devs name st = (ok, devs')"
    and "set_device_hybrid hdevs dev hst = (hok, hdevs')"
  shows "(\<forall>d. d \<noteq> replace_two_spaces (strip name) \<longrightarrow> devs' d = devs d)
       \<and> (ok \<longleftrightarrow> replace_two_spaces (strip name) \<in> dom devs)
       \<and> (\<not> ok \<longrightarrow> devs' = devs)
       \<and> (\<forall>d. Some d \<noteq> dev \<longrightarrow> hdevs' d = hdevs d)
       \<and> (hok \<longleftrightarrow> (\<exists>d \<in> dom hdevs. dev = Some d))
       \<and> (\<not> hok \<longrightarrow> hdevs' = hdevs)"
proof -
  from assms(1) have a: "(\<forall>d. d \<noteq> replace_two_spaces (strip name) \<longrightarrow> devs' d = devs d)
       \<and> (ok \<longleftrightarrow> replace_two_spaces (strip name) \<in> dom devs) \<and> (\<not> ok \<longrightarrow> devs' = devs)"
    by (auto simp: set_device_def Let_def split: if_splits)
  from assms(2) have b: "(\<forall>d. Some d \<noteq> dev \<longrightarrow> hdevs' d = hdevs d)
       \<and> (hok \<longleftrightarrow> (\<exists>d \<in> dom hdevs. dev = Some d)) \<and> (\<not> hok \<longrightarrow> hdevs' = hdevs)"
    by (auto simp: set_device_hybrid_def split: if_splits option.splits)
  from a b show ?thesis by blast
qed

theorem set_device_frame_witness:
  "set_device initial_devices '' kitchen  fan '' ''on'' = (True, initial_devices(''kitchen fan'' \<mapsto> ''on''))
   \<and> (initial_devices(''kitchen fan'' \<mapsto> ''on'')) ''bedroom heater'' = initial_devices ''bedroom heater''
   \<and> ''bedroom heater'' \<noteq> replace_two_spaces (strip '' kitchen  fan '')
   \<and> set_device_hybrid initial_devices_hybrid (Some ''fan'') ''on'' = (False, initial_devices_hybrid)
   \<and> set_device initial_devices ''garden lamp'' ''on'' = (False, initial_devices)
   \<and> set_device_hybrid initial_devices_hybrid None ''on'' = (False, initial_devices_hybrid)"
proof -
  have n1: "replace_two_spaces (strip '' kitchen  fan '') = ''kitchen fan''" by code_simp
  have n2: "replace_two_spaces (strip ''garden lamp'') = ''garden lamp''" by code_simp
  have 1: "set_device initial_devices '' kitchen  fan '' ''on'' = (True, initial_devices(''kitchen fan'' \<mapsto> ''on''))"
    by (simp add: set_device_def n1 initial_devices_def)
  have 2: "set_device_hybrid initial_devices_hybrid (Some ''fan'') ''on'' = (False, initial_devices_hybrid)"
    by (simp add: set_device_hybrid_def initial_devices_hybrid_def)
  have 3: "set_device initial_devices ''garden lamp'' ''on'' = (False, initial_devices)"
    by (simp add: set_device_def n2 initial_devices_def)
  have 4: "set_device_hybrid initial_devices_hybrid None ''on'' = (False, initial_devices_hybrid)"
    by (simp add: set_device_hybrid_def)
  have 5: "''bedroom heater'' \<noteq> replace_two_spaces (strip '' kitchen  fan '')" by (simp add: n1)
  from set_device_frame[OF 1 2] 5
  have "(initial_devices(''kitchen fan'' \<mapsto> ''on'')) ''bedroom heater'' = initial_devices ''bedroom heater''"
    by blast
  with 1 2 3 4 5 show ?thesis by blast
qed

text \<open>
  Claim C5, as stated: every schedule command with a clock time \<open>H am/pm\<close> resolves to
  the next occurrence of that hour strictly after the time \<open>ref\<close> at which it is issued. It
  fails for a command whose time expression is \<open>tomorrow at H am/pm\<close>: \<open>interpret\<close> passes
  \<open>now + 1 day\<close> to \<open>parse_time_of_day\<close>, so the command issued at 10:30 is scheduled
  for 15:00 of the next day, although 15:00 of the same day is still to come.
\<close>

theorem schedule_counterexample:
  "interpret_text \<lparr>ordinal = 738000, hour = 10, minute = 30, second = 15, microsecond = 5\<rparr>
       ''remind me to take medicine tomorrow at 3 pm''
     = Inr \<lparr>command_text = ''remind me to take medicine tomorrow at 3 pm'',
            action_type = Some Schedule, device = None, task = Some ''take medicine'',
            scheduled_time = Some \<lparr>ordinal = 738001, hour = 15, minute = 0, second = 0, microsecond = 0\<rparr>,
            state = None\<rparr>
   \<and> to_us \<lparr>ordinal = 738000, hour = 10, minute = 30, second = 15, microsecond = 5\<rparr>
       < to_us \<lparr>ordinal = 738000, hour = 15, minute = 0, second = 0, microsecond = 0\<rparr>
   \<and> to_us \<lparr>ordinal = 738000, hour = 15, minute = 0, second = 0, microsecond = 0\<rparr>
       < to_us \<lparr>ordinal = 738001, hour = 15, minute = 0, second = 0, microsecond = 0\<rparr>"
proof -
  define now0 where "now0 = \<lparr>ordinal = 738000, hour = 10, minute = 30, second = 15, microsecond = 5\<rparr>"
  define cmd where "cmd = ''remind me to take medicine tomorrow at 3 pm''"
  have j: "join_space (tokenize cmd) = cmd" unfolding cmd_def by code_simp
  have dn: "device_search (join_space (tokenize cmd)) = None" unfolding j unfolding cmd_def by code_simp
  have ss: "schedule_search (join_space (tokenize cmd)) = Some (''take medicine'', ''tomorrow at '' @ ''3'' @ '' '' @ ''pm'')"
    unfolding j unfolding cmd_def by code_simp
  have v: "valid_datetime now0" by (simp add: now0_def valid_datetime_def MAXORDINAL_def)
  have d3: "int_of_digits ''3'' = 3" by code_simp
  have h: "at_hour now0 (clock_hour (int_of_digits ''3'') ''pm'')
      = \<lparr>ordinal = 738000, hour = 15, minute = 0, second = 0, microsecond = 0\<rparr>"
    by (simp add: d3 clock_hour_def at_hour_def now0_def)
  have lt: "to_us now0 < to_us (at_hour now0 (clock_hour (int_of_digits ''3'') ''pm''))"
    unfolding h by (simp add: to_us_def now0_def)
  have st: "schedule_time now0 (''tomorrow at '' @ ''3'' @ '' '' @ ''pm'')
      = Inr (next_day (at_hour now0 (clock_hour (int_of_digits ''3'') ''pm'')))"
    by (rule schedule_tomorrow_resolution[OF v _ _ _ _ _ _ _ lt])
       (simp_all add: d3 is_digit_def now0_def MAXORDINAL_def)
  have sp: "strip ''take medicine'' = ''take medicine''" by code_simp
  from interpret_schedule_result[OF dn ss st]
  have 1: "interpret_text now0 cmd
     = Inr \<lparr>command_text = cmd, action_type = Some Schedule, device = None, task = Some ''take medicine'',
            scheduled_time = Some \<lparr>ordinal = 738001, hour = 15, minute = 0, second = 0, microsecond = 0\<rparr>,
            state = None\<rparr>"
    unfolding h by (simp add: schedule_result_def sp next_day_def)
  have 2: "to_us now0 < to_us \<lparr>ordinal = 738000, hour = 15, minute = 0, second = 0, microsecond = 0\<rparr>"
    by (simp add: to_us_def now0_def)
  have 3: "to_us \<lparr>ordinal = 738000, hour = 15, minute = 0, second = 0, microsecond = 0\<rparr>
       < to_us \<lparr>ordinal = 738001, hour = 15, minute = 0, second = 0, microsecond = 0\<rparr>"
    by (simp add: to_us_def)
  from 1 2 3 show ?thesis unfolding now0_def cmd_def by simp
qed

text \<open>
  Claim C5, amended. A schedule command is a text in which \<open>interpret\<close> finds no device
  pattern and finds the schedule pattern; \<open>g3\<close> is the time expression the pattern
  matched in the joined tokens, \<open>ds\<close> its digits, \<open>H\<close> their value, and \<open>now\<close> the valid time
  at which the command is issued.
  \<^item> \<open>g3\<close> is \<open>at H am/pm\<close> with one or two digits and \<open>H\<close> from 1 to 12: the scheduled time
    is the day of \<open>now\<close> at that hour sharp when this is later than \<open>now\<close>, and otherwise
    the next day at that hour, which is later than \<open>now\<close>; 12 am is hour 0, 12 pm hour 12.
  \<^item> \<open>g3\<close> is \<open>tomorrow at H am/pm\<close>, with the same \<open>H\<close>, and the hour sharp on the day of
    \<open>now\<close> is later than \<open>now\<close>: the scheduled time is the next day at that hour.
  \<^item> \<open>g3\<close> is \<open>after N hours\<close> or \<open>after N minutes\<close>: the scheduled time is \<open>now\<close> plus \<open>N\<close>
    of that unit.
  Each is stated where the result is a date that \<open>datetime\<close> can hold, up to the year 9999.
\<close>

theorem schedule_resolution:
  assumes "valid_datetime now"
    and "device_search (join_space (tokenize text)) = None"
    and "schedule_search (join_space (tokenize text)) = Some (g2, g3)"
    and "ds \<noteq> []" and "list_all is_digit ds"
    and "sp \<in> {[], '' ''}" and "ap \<in> {''am'', ''pm''}"
  shows "(g3 = ''at '' @ ds @ sp @ ap \<and> length ds \<le> 2 \<and> 1 \<le> int_of_digits ds \<and> int_of_digits ds \<le> 12
            \<longrightarrow>
            (to_us now < to_us (at_hour now (clock_hour (int_of_digits ds) ap))
               \<longrightarrow> interpret_text now text
                     = Inr (schedule_result text g2 (at_hour now (clock_hour (int_of_digits ds) ap))))
          \<and> (to_us (at_hour now (clock_hour (int_of_digits ds) ap)) \<le> to_us now \<and> ordinal now < MAXORDINAL
               \<longrightarrow> interpret_text now text
                     = Inr (schedule_result text g2
                             (next_day (at_hour now (clock_hour (int_of_digits ds) ap))))
                 \<and> to_us now < to_us (next_day (at_hour now (clock_hour (int_of_digits ds) ap)))))
       \<and> (g3 = ''tomorrow at '' @ ds @ sp @ ap \<and> length ds \<le> 2 \<and> 1 \<le> int_of_digits ds
           \<and> int_of_digits ds \<le> 12
           \<and> to_us now < to_us (at_hour now (clock_hour (int_of_digits ds) ap)) \<and> ordinal now < MAXORDINAL
            \<longrightarrow> interpret_text now text
                  = Inr (schedule_result text g2
                          (next_day (at_hour now (clock_hour (int_of_digits ds) ap)))))
       \<and> (g3 = ''after '' @ ds @ '' hours''
           \<and> DAY \<le> to_us now + int (int_of_digits ds) * HOUR
           \<and> to_us now + int (int_of_digits ds) * HOUR < (int MAXORDINAL + 1) * DAY
            \<longrightarrow> (\<exists>d. interpret_text now text = Inr (schedule_result text g2 d) \<and> valid_datetime d
                    \<and> to_us d = to_us now + int (int_of_digits ds) * HOUR))
       \<and> (g3 = ''after '' @ ds @ '' minutes''
           \<and> DAY \<le> to_us now + int (int_of_digits ds) * MINUTE
           \<and> to_us now + int (int_of_digits ds) * MINUTE < (int MAXORDINAL + 1) * DAY
            \<longrightarrow> (\<exists>d. interpret_text now text = Inr (schedule_result text g2 d) \<and> valid_datetime d
                    \<and> to_us d = to_us now + int (int_of_digits ds) * MINUTE))"
proof -
  define h where "h = clock_hour (int_of_digits ds) ap"
  note r = interpret_schedule_result[OF assms(2,3), of now]
  have a: "g3 = ''at '' @ ds @ sp @ ap \<and> length ds \<le> 2 \<and> 1 \<le> int_of_digits ds \<and> int_of_digits ds \<le> 12
            \<longrightarrow>
            (to_us now < to_us (at_hour now h)
               \<longrightarrow> interpret_text now text = Inr (schedule_result text g2 (at_hour now h)))
          \<and> (to_us (at_hour now h) \<le> to_us now \<and> ordinal now < MAXORDINAL
               \<longrightarrow> interpret_text now text = Inr (schedule_result text g2 (next_day (at_hour now h)))
                 \<and> to_us now < to_us (next_day (at_hour now h)))"
  proof
    assume c: "g3 = ''at '' @ ds @ sp @ ap \<and> length ds \<le> 2 \<and> 1 \<le> int_of_digits ds \<and> int_of_digits ds \<le> 12"
    from schedule_at_resolution[OF assms(1,4) _ assms(5,6,7)] c
    have s: "(to_us now < to_us (at_hour now h) \<longrightarrow> schedule_time now g3 = Inr (at_hour now h))
       \<and> (to_us (at_hour now h) \<le> to_us now \<and> ordinal now < MAXORDINAL
            \<longrightarrow> schedule_time now g3 = Inr (next_day (at_hour now h))
              \<and> to_us now < to_us (next_day (at_hour now h)))"
      unfolding h_def by blast
    show "(to_us now < to_us (at_hour now h)
               \<longrightarrow> interpret_text now text = Inr (schedule_result text g2 (at_hour now h)))
          \<and> (to_us (at_hour now h) \<le> to_us now \<and> ordinal now < MAXORDINAL
               \<longrightarrow> interpret_text now text = Inr (schedule_result text g2 (next_day (at_hour now h)))
                 \<and> to_us now < to_us (next_day (at_hour now h)))"
      using s r by blast
  qed
  have b: "g3 = ''tomorrow at '' @ ds @ sp @ ap \<and> length ds \<le> 2 \<and> 1 \<le> int_of_digits ds
           \<and> int_of_digits ds \<le> 12
           \<and> to_us now < to_us (at_hour now h) \<and> ordinal now < MAXORDINAL
            \<longrightarrow> interpret_text now text = Inr (schedule_result text g2 (next_day (at_hour now h)))"
  proof
    assume c: "g3 = ''tomorrow at '' @ ds @ sp @ ap \<and> length ds \<le> 2 \<and> 1 \<le> int_of_digits ds
           \<and> int_of_digits ds \<le> 12
           \<and> to_us now < to_us (at_hour now h) \<and> ordinal now < MAXORDINAL"
    then have "schedule_time now g3 = Inr (next_day (at_hour now h))"
      using schedule_tomorrow_resolution[OF assms(1,4) _ assms(5,6,7)] unfolding h_def by blast
    then show "interpret_text now text = Inr (schedule_result text g2 (next_day (at_hour now h)))"
      by (rule r)
  qed
  note af = schedule_after_resolution[OF assms(1,4,5)]
  have c: "g3 = ''after '' @ ds @ '' hours''
           \<and> DAY \<le> to_us now + int (int_of_digits ds) * HOUR
           \<and> to_us now + int (int_of_digits ds) * HOUR < (int MAXORDINAL + 1) * DAY
            \<longrightarrow> (\<exists>d. interpret_text now text = Inr (schedule_result text g2 d) \<and> valid_datetime d
                    \<and> to_us d = to_us now + int (int_of_digits ds) * HOUR)"
    using af r by blast
  have d: "g3 = ''after '' @ ds @ '' minutes''
           \<and> DAY \<le> to_us now + int (int_of_digits ds) * MINUTE
           \<and> to_us now + int (int_of_digits ds) * MINUTE < (int MAXORDINAL + 1) * DAY
            \<longrightarrow> (\<exists>d. interpret_text now text = Inr (schedule_result text g2 d) \<and> valid_datetime d
                    \<and> to_us d = to_us now + int (int_of_digits ds) * MINUTE)"
    using af r by blast
  from a b c d show ?thesis unfolding h_def by blast
qed

theorem schedule_resolution_witness:
  "valid_datetime \<lparr>ordinal = 738000, hour = 10, minute = 30, second = 15, microsecond = 5\<rparr>
   \<and> list_all is_digit ''3'' \<and> 1 \<le> int_of_digits ''3'' \<and> int_of_digits ''3'' \<le> 12
   \<and> device_search (join_space (tokenize ''Remind me to take medicine at 3 pm.'')) = None
   \<and> schedule_search (join_space (tokenize ''Remind me to take medicine at 3 pm.''))
       = Some (''take medicine'', ''at '' @ ''3'' @ '' '' @ ''pm'')
   \<and> interpret_text \<lparr>ordinal = 738000, hour = 10, minute = 30, second = 15, microsecond = 5\<rparr>
         ''Remind me to take medicine at 3 pm.''
       = Inr (schedule_result ''Remind me to take medicine at 3 pm.'' ''take medicine''
               \<lparr>ordinal = 738000, hour = 15, minute = 0, second = 0, microsecond = 0\<rparr>)
   \<and> schedule_search (join_space (tokenize ''remind me to take medicine at 9am''))
       = Some (''take medicine'', ''at '' @ ''9'' @ [] @ ''am'')
   \<and> interpret_text \<lparr>ordinal = 738000, hour = 10, minute = 30, second = 15, microsecond = 5\<rparr>
         ''remind me to take medicine at 9am''
       = Inr (schedule_result ''remind me to take medicine at 9am'' ''take medicine''
               \<lparr>ordinal = 738001, hour = 9, minute = 0, second = 0, microsecond = 0\<rparr>)
   \<and> schedule_search (join_space (tokenize ''remind me to take medicine tomorrow at 3 pm''))
       = Some (''take medicine'', ''tomorrow at '' @ ''3'' @ '' '' @ ''pm'')
   \<and> interpret_text \<lparr>ordinal = 738000, hour = 10, minute = 30, second = 15, microsecond = 5\<rparr>
         ''remind me to take medicine tomorrow at 3 pm''
       = Inr (schedule_result ''remind me to take medicine tomorrow at 3 pm'' ''take medicine''
               \<lparr>ordinal = 738001, hour = 15, minute = 0, second = 0, microsecond = 0\<rparr>)
   \<and> schedule_search (join_space (tokenize ''schedule a water the plants after 2 hours''))
       = Some (''water the plants'', ''after '' @ ''2'' @ '' hours'')
   \<and> (\<exists>d. interpret_text \<lparr>ordinal = 738000, hour = 10, minute = 30, second = 15, microsecond = 5\<rparr>
              ''schedule a water the plants after 2 hours''
            = Inr (schedule_result ''schedule a water the plants after 2 hours'' ''water the plants'' d)
          \<and> valid_datetime d
          \<and> to_us d = to_us \<lparr>ordinal = 738000, hour = 10, minute = 30, second = 15, microsecond = 5\<rparr>
                        + int (int_of_digits ''2'') * HOUR)
   \<and> schedule_search (join_space (tokenize ''set alarm for meeting with team after 30 minutes''))
       = Some (''meeting with team'', ''after '' @ ''30'' @ '' minutes'')
   \<and> (\<exists>d. interpret_text \<lparr>ordinal = 738000, hour = 10, minute = 30, second = 15, microsecond = 5\<rparr>
              ''set alarm for meeting with team after 30 minutes''
            = Inr (schedule_result ''set alarm for meeting with team after 30 minutes''
                    ''meeting with team'' d)
          \<and> valid_datetime d
          \<and> to_us d = to_us \<lparr>ordinal = 738000, hour = 10, minute = 30, second = 15, microsecond = 5\<rparr>
                        + int (int_of_digits ''30'') * MINUTE)"
proof -
  define now0 where "now0 = \<lparr>ordinal = 738000, hour = 10, minute = 30, second = 15, microsecond = 5\<rparr>"
  define c1 where "c1 = ''Remind me to take medicine at 3 pm.''"
  define c2 where "c2 = ''remind me to take medicine at 9am''"
  define c3 where "c3 = ''remind me to take medicine tomorrow at 3 pm''"
  define c4 where "c4 = ''schedule a water the plants after 2 hours''"
  define c5 where "c5 = ''set alarm for meeting with team after 30 minutes''"
  have v: "valid_datetime now0" by (simp add: now0_def valid_datetime_def MAXORDINAL_def)
  have mx: "ordinal now0 < MAXORDINAL" by (simp add: now0_def MAXORDINAL_def)
  have dg: "list_all is_digit ''3''" "list_all is_digit ''9''" "list_all is_digit ''2''"
    "list_all is_digit ''30''" by (simp_all add: is_digit_def)
  have ne: "''3'' \<noteq> []" "''9'' \<noteq> []" "''2'' \<noteq> []" "''30'' \<noteq> []" by simp_all
  have sp: "'' '' \<in> {[], '' ''}" "[] \<in> {[], '' ''}" by simp_all
  have ap: "''pm'' \<in> {''am'', ''pm''}" "''am'' \<in> {''am'', ''pm''}" by simp_all
  have d3: "int_of_digits ''3'' = 3" by code_simp
  have d9: "int_of_digits ''9'' = 9" by code_simp
  have d2: "int_of_digits ''2'' = 2" by code_simp
  have d30: "int_of_digits ''30'' = 30" by code_simp
  have n1: "device_search (join_space (tokenize c1)) = None" unfolding c1_def by code_simp
  have n2: "device_search (join_space (tokenize c2)) = None" unfolding c2_def by code_simp
  have n3: "device_search (join_space (tokenize c3)) = None" unfolding c3_def by code_simp
  have n4: "device_search (join_space (tokenize c4)) = None" unfolding c4_def by code_simp
  have n5: "device_search (join_space (tokenize c5)) = None" unfolding c5_def by code_simp
  have s1: "schedule_search (join_space (tokenize c1)) = Some (''take medicine'', ''at '' @ ''3'' @ '' '' @ ''pm'')"
    unfolding c1_def by code_simp
  have s2: "schedule_search (join_space (tokenize c2)) = Some (''take medicine'', ''at '' @ ''9'' @ [] @ ''am'')"
    unfolding c2_def by code_simp
  have s3: "schedule_search (join_space (tokenize c3)) = Some (''take medicine'', ''tomorrow at '' @ ''3'' @ '' '' @ ''pm'')"
    unfolding c3_def by code_simp
  have s4: "schedule_search (join_space (tokenize c4)) = Some (''water the plants'', ''after '' @ ''2'' @ '' hours'')"
    unfolding c4_def by code_simp
  have s5: "schedule_search (join_space (tokenize c5)) = Some (''meeting with team'', ''after '' @ ''30'' @ '' minutes'')"
    unfolding c5_def by code_simp
  have h3: "at_hour now0 (clock_hour (int_of_digits ''3'') ''pm'')
      = \<lparr>ordinal = 738000, hour = 15, minute = 0, second = 0, microsecond = 0\<rparr>"
    by (simp add: d3 clock_hour_def at_hour_def now0_def)
  have h9: "at_hour now0 (clock_hour (int_of_digits ''9'') ''am'')
      = \<lparr>ordinal = 738000, hour = 9, minute = 0, second = 0, microsecond = 0\<rparr>"
    by (simp add: d9 clock_hour_def at_hour_def now0_def)
  have lt3: "to_us now0 < to_us (at_hour now0 (clock_hour (int_of_digits ''3'') ''pm''))"
    unfolding h3 by (simp add: to_us_def now0_def)
  have le9: "to_us (at_hour now0 (clock_hour (int_of_digits ''9'') ''am'')) \<le> to_us now0"
    unfolding h9 by (simp add: to_us_def now0_def)
  have b3: "length ''3'' \<le> 2" "1 \<le> int_of_digits ''3''" "int_of_digits ''3'' \<le> 12" by (simp_all add: d3)
  have b9: "length ''9'' \<le> 2" "1 \<le> int_of_digits ''9''" "int_of_digits ''9'' \<le> 12" by (simp_all add: d9)
  have rh: "DAY \<le> to_us now0 + int (int_of_digits ''2'') * HOUR"
    "to_us now0 + int (int_of_digits ''2'') * HOUR < (int MAXORDINAL + 1) * DAY"
    by (simp_all add: d2 to_us_def now0_def MAXORDINAL_def DAY_def HOUR_def)
  have rm: "DAY \<le> to_us now0 + int (int_of_digits ''30'') * MINUTE"
    "to_us now0 + int (int_of_digits ''30'') * MINUTE < (int MAXORDINAL + 1) * DAY"
    by (simp_all add: d30 to_us_def now0_def MAXORDINAL_def DAY_def MINUTE_def)
  note t1 = schedule_resolution[OF v n1 s1 ne(1) dg(1) sp(1) ap(1)]
  note t2 = schedule_resolution[OF v n2 s2 ne(2) dg(2) sp(2) ap(2)]
  note t3 = schedule_resolution[OF v n3 s3 ne(1) dg(1) sp(1) ap(1)]
  note t4 = schedule_resolution[OF v n4 s4 ne(3) dg(3) sp(1) ap(1)]
  note t5 = schedule_resolution[OF v n5 s5 ne(4) dg(4) sp(1) ap(1)]
  from t1 b3 lt3 have r1: "interpret_text now0 c1
      = Inr (schedule_result c1 ''take medicine'' (at_hour now0 (clock_hour (int_of_digits ''3'') ''pm'')))"
    by blast
  from t2 b9 le9 mx have r2: "interpret_text now0 c2
      = Inr (schedule_result c2 ''take medicine''
              (next_day (at_hour now0 (clock_hour (int_of_digits ''9'') ''am''))))"
    by blast
  from t3 b3 lt3 mx have r3: "interpret_text now0 c3
      = Inr (schedule_result c3 ''take medicine''
              (next_day (at_hour now0 (clock_hour (int_of_digits ''3'') ''pm''))))"
    by blast
  from t4 rh have r4: "\<exists>d. interpret_text now0 c4 = Inr (schedule_result c4 ''water the plants'' d)
      \<and> valid_datetime d \<and> to_us d = to_us now0 + int (int_of_digits ''2'') * HOUR"
    by blast
  from t5 rm have r5: "\<exists>d. interpret_text now0 c5 = Inr (schedule_result c5 ''meeting with team'' d)
      \<and> valid_datetime d \<and> to_us d = to_us now0 + int (int_of_digits ''30'') * MINUTE"
    by blast
  have q1: "interpret_text now0 c1 = Inr (schedule_result c1 ''take medicine''
      \<lparr>ordinal = 738000, hour = 15, minute = 0, second = 0, microsecond = 0\<rparr>)"
    using r1 unfolding h3 .
  have q2: "interpret_text now0 c2 = Inr (schedule_result c2 ''take medicine''
      \<lparr>ordinal = 738001, hour = 9, minute = 0, second = 0, microsecond = 0\<rparr>)"
    using r2 unfolding h9 by (simp add: next_day_def)
  have q3: "interpret_text now0 c3 = Inr (schedule_result c3 ''take medicine''
      \<lparr>ordinal = 738001, hour = 15, minute = 0, second = 0, microsecond = 0\<rparr>)"
    using r3 unfolding h3 by (simp add: next_day_def)
  have "valid_datetime now0
   \<and> list_all is_digit ''3'' \<and> 1 \<le> int_of_digits ''3'' \<and> int_of_digits ''3'' \<le> 12
   \<and> device_search (join_space (tokenize c1)) = None
   \<and> schedule_search (join_space (tokenize c1)) = Some (''take medicine'', ''at '' @ ''3'' @ '' '' @ ''pm'')
   \<and> interpret_text now0 c1 = Inr (schedule_result c1 ''take medicine''
        \<lparr>ordinal = 738000, hour = 15, minute = 0, second = 0, microsecond = 0\<rparr>)
   \<and> schedule_search (join_space (tokenize c2)) = Some (''take medicine'', ''at '' @ ''9'' @ [] @ ''am'')
   \<and> interpret_text now0 c2 = Inr (schedule_result c2 ''take medicine''
        \<lparr>ordinal = 738001, hour = 9, minute = 0, second = 0, microsecond = 0\<rparr>)
   \<and> schedule_search (join_space (tokenize c3)) = Some (''take medicine'', ''tomorrow at '' @ ''3'' @ '' '' @ ''pm'')
   \<and> interpret_text now0 c3 = Inr (schedule_result c3 ''take medicine''
        \<lparr>ordinal = 738001, hour = 15, minute = 0, second = 0, microsecond = 0\<rparr>)
   \<and> schedule_search (join_space (tokenize c4)) = Some (''water the plants'', ''after '' @ ''2'' @ '' hours'')
   \<and> (\<exists>d. interpret_text now0 c4 = Inr (schedule_result c4 ''water the plants'' d)
        \<and> valid_datetime d \<and> to_us d = to_us now0 + int (int_of_digits ''2'') * HOUR)
   \<and> schedule_search (join_space (tokenize c5)) = Some (''meeting with team'', ''after '' @ ''30'' @ '' minutes'')
   \<and> (\<exists>d. interpret_text now0 c5 = Inr (schedule_result c5 ''meeting with team'' d)
        \<and> valid_datetime d \<and> to_us d = to_us now0 + int (int_of_digits ''30'') * MINUTE)"
    using v dg(1) b3(2,3) n1 s1 q1 s2 q2 s3 q3 s4 r4 s5 r5 by blast
  then show ?thesis unfolding now0_def c1_def c2_def c3_def c4_def c5_def .
qed

text \<open>
  Claim C4, as stated: a device token without a room token resolves to the default room
  configured for the device class and, without one, to an error that tells an unresolved
  device apart; \<open>turn on fan\<close> with the default room \<open>kitchen\<close> resolves to
  \<open>kitchen fan\<close>. No default room can be configured in either file. \<open>interpret\<close>
  of codeNew.py resolves \<open>turn on fan\<close> to the device \<open>fan\<close>, a device intent and no
  error; \<open>extract_device\<close> of hybrid_smart_home.py resolves it to \<open>None\<close>, the value
  it also gives when there is no device at all.
\<close>

theorem device_name_counterexample:
  "interpret_text \<lparr>ordinal = 738000, hour = 10, minute = 30, second = 15, microsecond = 5\<rparr> ''turn on fan''
     = Inr \<lparr>command_text = ''turn on fan'', action_type = Some Device, device = Some ''fan'',
            task = None, scheduled_time = None, state = Some ''on''\<rparr>
   \<and> ''fan'' \<noteq> ''kitchen fan''
   \<and> extract_device ''turn on fan'' = None"
proof -
  have j: "join_space (tokenize ''turn on fan'') = ''turn on fan''" by code_simp
  have m: "device_search (join_space (tokenize ''turn on fan'')) = Some (''on'', None, ''fan'')"
    unfolding j by code_simp
  have s: "strip (strip [] @ '' '' @ ''fan'') = ''fan''" by code_simp
  have e: "extract_device ''turn on fan'' = None" by code_simp
  from interpret_device_match[OF m] s e show ?thesis by simp
qed

text \<open>
  Claim C4, amended. \<open>interpret\<close> of codeNew.py resolves the device from the leftmost
  match of its device pattern in the joined tokens (\<open>device_search\<close>): a verb, a state,
  an optional \<open>the\<close>, an optional room word with the whitespace after it (group 3) and a
  device noun (group 4). For every text:
  \<^item> when the match has the room word \<open>kitchen\<close>, \<open>bedroom\<close> or \<open>bathroom\<close>, the device is
    the room, a space and the noun;
  \<^item> when the match has no room word, the device is the bare noun: no default room is
    looked up and no error is produced;
  \<^item> when no device noun occurs in the joined tokens, no device is resolved and the
    intent is not a device intent;
  \<^item> a command that is exactly verb, state, optional \<open>the\<close>, one of the three room words
    and a device noun resolves to the room, a space and the noun, and without the room
    word to the bare noun.
  \<open>extract_device\<close> of hybrid_smart_home.py has no configuration either; it resolves by
  the fixed precedence of its tests, written out in the last part of the statement.
  A match whose room word is \<open>living\<close>, and a text with a device noun that the pattern
  does not match, are outside the statement.
\<close>

theorem device_name_resolution:
  "(device_search (join_space (tokenize text)) = Some (sw, Some g3, dev)
      \<and> strip g3 = room \<and> room \<in> {''kitchen'', ''bedroom'', ''bathroom''}
      \<longrightarrow> interpret_text now text =
            Inr \<lparr>command_text = text, action_type = Some Device, device = Some (room @ '' '' @ dev),
                 task = None, scheduled_time = None, state = Some sw\<rparr>
          \<and> dev \<in> {''light'', ''lights'', ''fan'', ''heater'', ''air conditioner''})
   \<and> (device_search (join_space (tokenize text)) = Some (sw, None, dev)
      \<longrightarrow> interpret_text now text =
            Inr \<lparr>command_text = text, action_type = Some Device, device = Some dev,
                 task = None, scheduled_time = None, state = Some sw\<rparr>
          \<and> dev \<in> {''light'', ''lights'', ''fan'', ''heater'', ''air conditioner''})
   \<and> (\<not> contains (join_space (tokenize text')) ''light'' \<and> \<not> contains (join_space (tokenize text')) ''fan''
       \<and> \<not> contains (join_space (tokenize text')) ''heater''
       \<and> \<not> contains (join_space (tokenize text')) ''air conditioner''
       \<and> interpret_text now text' = Inr sm
      \<longrightarrow> device sm = None \<and> action_type sm \<noteq> Some Device)
   \<and> (join_space (tokenize text) = verb @ '' '' @ sw @ '' '' @ art @ room @ '' '' @ dev
       \<and> verb \<in> {''turn'', ''switch''} \<and> sw \<in> {''on'', ''off''} \<and> art \<in> {[], ''the ''}
       \<and> room \<in> {''kitchen'', ''bedroom'', ''bathroom''}
       \<and> dev \<in> {''light'', ''lights'', ''fan'', ''heater'', ''air conditioner''}
      \<longrightarrow> interpret_text now text =
            Inr \<lparr>command_text = text, action_type = Some Device, device = Some (room @ '' '' @ dev),
                 task = None, scheduled_time = None, state = Some sw\<rparr>)
   \<and> (join_space (tokenize text) = verb @ '' '' @ sw @ '' '' @ art @ dev
       \<and> verb \<in> {''turn'', ''switch''} \<and> sw \<in> {''on'', ''off''} \<and> art \<in> {[], ''the ''}
       \<and> dev \<in> {''light'', ''lights'', ''fan'', ''heater'', ''air conditioner''}
      \<longrightarrow> interpret_text now text =
            Inr \<lparr>command_text = text, action_type = Some Device, device = Some dev,
                 task = None, scheduled_time = None, state = Some sw\<rparr>)
   \<and> extract_device t =
        (if contains t ''living'' \<and> contains t ''light'' then Some ''living room light''
         else if contains t ''kitchen'' \<and> contains t ''fan'' then Some ''kitchen fan''
         else if contains t ''heater'' then Some ''bedroom heater''
         else if contains t ''light'' then Some ''living room light''
         else None)"
proof -
  have s0: "strip [] = []" by (simp add: strip_def)
  have k: "''kitchen'' \<in> {''kitchen'', ''bedroom'', ''bathroom''}" by simp
  have withroom: "interpret_text now text =
            Inr \<lparr>command_text = text, action_type = Some Device, device = Some (room @ '' '' @ dev),
                 task = None, scheduled_time = None, state = Some sw\<rparr>"
    if m: "device_search (join_space (tokenize text)) = Some (sw, Some g3, dev)"
      and g: "strip g3 = room" and r: "room \<in> {''kitchen'', ''bedroom'', ''bathroom''}"
      and d: "dev \<in> {''light'', ''lights'', ''fan'', ''heater'', ''air conditioner''}" for g3
    using interpret_device_match[OF m, of now] strip_room_dev(2)[OF r d] g by simp
  have bare: "interpret_text now text =
            Inr \<lparr>command_text = text, action_type = Some Device, device = Some dev,
                 task = None, scheduled_time = None, state = Some sw\<rparr>"
    if m: "device_search (join_space (tokenize text)) = Some (sw, None, dev)"
      and d: "dev \<in> {''light'', ''lights'', ''fan'', ''heater'', ''air conditioner''}"
    using interpret_device_match[OF m, of now] strip_room_dev(3)[OF k d] s0 by simp
  have a: "device_search (join_space (tokenize text)) = Some (sw, Some g3, dev)
      \<and> strip g3 = room \<and> room \<in> {''kitchen'', ''bedroom'', ''bathroom''}
      \<longrightarrow> interpret_text now text =
            Inr \<lparr>command_text = text, action_type = Some Device, device = Some (room @ '' '' @ dev),
                 task = None, scheduled_time = None, state = Some sw\<rparr>
          \<and> dev \<in> {''light'', ''lights'', ''fan'', ''heater'', ''air conditioner''}"
  proof (intro impI, elim conjE)
    assume m: "device_search (join_space (tokenize text)) = Some (sw, Some g3, dev)"
      and g: "strip g3 = room" and r: "room \<in> {''kitchen'', ''bedroom'', ''bathroom''}"
    from device_search_Some[OF m]
    have dv: "dev \<in> {''light'', ''lights'', ''fan'', ''heater'', ''air conditioner''}" ..
    from withroom[OF m g r dv] dv
    show "interpret_text now text =
            Inr \<lparr>command_text = text, action_type = Some Device, device = Some (room @ '' '' @ dev),
                 task = None, scheduled_time = None, state = Some sw\<rparr>
          \<and> dev \<in> {''light'', ''lights'', ''fan'', ''heater'', ''air conditioner''}" ..
  qed
  have b: "device_search (join_space (tokenize text)) = Some (sw, None, dev)
      \<longrightarrow> interpret_text now text =
            Inr \<lparr>command_text = text, action_type = Some Device, device = Some dev,
                 task = None, scheduled_time = None, state = Some sw\<rparr>
          \<and> dev \<in> {''light'', ''lights'', ''fan'', ''heater'', ''air conditioner''}"
  proof
    assume m: "device_search (join_space (tokenize text)) = Some (sw, None, dev)"
    from device_search_Some[OF m]
    have dv: "dev \<in> {''light'', ''lights'', ''fan'', ''heater'', ''air conditioner''}" ..
    from bare[OF m dv] dv
    show "interpret_text now text =
            Inr \<lparr>command_text = text, action_type = Some Device, device = Some dev,
                 task = None, scheduled_time = None, state = Some sw\<rparr>
          \<and> dev \<in> {''light'', ''lights'', ''fan'', ''heater'', ''air conditioner''}" ..
  qed
  have c: "\<not> contains (join_space (tokenize text')) ''light'' \<and> \<not> contains (join_space (tokenize text')) ''fan''
       \<and> \<not> contains (join_space (tokenize text')) ''heater''
       \<and> \<not> contains (join_space (tokenize text')) ''air conditioner''
       \<and> interpret_text now text' = Inr sm
      \<longrightarrow> device sm = None \<and> action_type sm \<noteq> Some Device"
    using no_device_noun[of "join_space (tokenize text')"] interpret_no_device[of text' now sm]
    by blast
  have d: "join_space (tokenize text) = verb @ '' '' @ sw @ '' '' @ art @ room @ '' '' @ dev
       \<and> verb \<in> {''turn'', ''switch''} \<and> sw \<in> {''on'', ''off''} \<and> art \<in> {[], ''the ''}
       \<and> room \<in> {''kitchen'', ''bedroom'', ''bathroom''}
       \<and> dev \<in> {''light'', ''lights'', ''fan'', ''heater'', ''air conditioner''}
      \<longrightarrow> interpret_text now text =
            Inr \<lparr>command_text = text, action_type = Some Device, device = Some (room @ '' '' @ dev),
                 task = None, scheduled_time = None, state = Some sw\<rparr>"
  proof (intro impI, elim conjE)
    assume j: "join_space (tokenize text) = verb @ '' '' @ sw @ '' '' @ art @ room @ '' '' @ dev"
      and vb: "verb \<in> {''turn'', ''switch''}" and st: "sw \<in> {''on'', ''off''}"
      and ar: "art \<in> {[], ''the ''}"
      and r: "room \<in> {''kitchen'', ''bedroom'', ''bathroom''}"
      and dv: "dev \<in> {''light'', ''lights'', ''fan'', ''heater'', ''air conditioner''}"
    have m: "device_search (join_space (tokenize text)) = Some (sw, Some (room @ '' ''), dev)"
      unfolding j by (rule device_search_room[OF vb st ar r dv])
    show "interpret_text now text =
            Inr \<lparr>command_text = text, action_type = Some Device, device = Some (room @ '' '' @ dev),
                 task = None, scheduled_time = None, state = Some sw\<rparr>"
      by (rule withroom[OF m strip_room_dev(1)[OF r dv] r dv])
  qed
  have e: "join_space (tokenize text) = verb @ '' '' @ sw @ '' '' @ art @ dev
       \<and> verb \<in> {''turn'', ''switch''} \<and> sw \<in> {''on'', ''off''} \<and> art \<in> {[], ''the ''}
       \<and> dev \<in> {''light'', ''lights'', ''fan'', ''heater'', ''air conditioner''}
      \<longrightarrow> interpret_text now text =
            Inr \<lparr>command_text = text, action_type = Some Device, device = Some dev,
                 task = None, scheduled_time = None, state = Some sw\<rparr>"
  proof (intro impI, elim conjE)
    assume j: "join_space (tokenize text) = verb @ '' '' @ sw @ '' '' @ art @ dev"
      and vb: "verb \<in> {''turn'', ''switch''}" and st: "sw \<in> {''on'', ''off''}"
      and ar: "art \<in> {[], ''the ''}"
      and dv: "dev \<in> {''light'', ''lights'', ''fan'', ''heater'', ''air conditioner''}"
    have m: "device_search (join_space (tokenize text)) = Some (sw, None, dev)"
      unfolding j by (rule device_search_bare[OF vb st ar dv])
    show "interpret_text now text =
            Inr \<lparr>command_text = text, action_type = Some Device, device = Some dev,
                 task = None, scheduled_time = None, state = Some sw\<rparr>"
      by (rule bare[OF m dv])
  qed
  have f: "extract_device t =
        (if contains t ''living'' \<and> contains t ''light'' then Some ''living room light''
         else if contains t ''kitchen'' \<and> contains t ''fan'' then Some ''kitchen fan''
         else if contains t ''heater'' then Some ''bedroom heater''
         else if contains t ''light'' then Some ''living room light''
         else None)"
    by (simp add: extract_device_def DEFAULT_LIGHT_def)
  from a b c d e f show ?thesis by (intro conjI)
qed

theorem device_name_resolution_witness:
  "device_search (join_space (tokenize ''Please turn on the kitchen fan now!''))
       = Some (''on'', Some ''kitchen '', ''fan'')
   \<and> strip ''kitchen '' = ''kitchen''
   \<and> interpret_text \<lparr>ordinal = 738000, hour = 10, minute = 30, second = 15, microsecond = 5\<rparr>
         ''Please turn on the kitchen fan now!''
       = Inr \<lparr>command_text = ''Please turn on the kitchen fan now!'', action_type = Some Device,
               device = Some ''kitchen fan'', task = None, scheduled_time = None, state = Some ''on''\<rparr>
   \<and> device_search (join_space (tokenize ''please turn on fan now'')) = Some (''on'', None, ''fan'')
   \<and> interpret_text \<lparr>ordinal = 738000, hour = 10, minute = 30, second = 15, microsecond = 5\<rparr>
         ''please turn on fan now''
       = Inr \<lparr>command_text = ''please turn on fan now'', action_type = Some Device,
               device = Some ''fan'', task = None, scheduled_time = None, state = Some ''on''\<rparr>
   \<and> \<not> contains (join_space (tokenize ''hello there'')) ''light''
   \<and> \<not> contains (join_space (tokenize ''hello there'')) ''fan''
   \<and> \<not> contains (join_space (tokenize ''hello there'')) ''heater''
   \<and> \<not> contains (join_space (tokenize ''hello there'')) ''air conditioner''
   \<and> interpret_text \<lparr>ordinal = 738000, hour = 10, minute = 30, second = 15, microsecond = 5\<rparr>
         ''hello there''
       = Inr \<lparr>command_text = ''hello there'', action_type = None, device = None, task = None,
               scheduled_time = None, state = None\<rparr>
   \<and> join_space (tokenize ''Switch off the bedroom heater.'')
       = ''switch'' @ '' '' @ ''off'' @ '' '' @ ''the '' @ ''bedroom'' @ '' '' @ ''heater''
   \<and> interpret_text \<lparr>ordinal = 738000, hour = 10, minute = 30, second = 15, microsecond = 5\<rparr>
         ''Switch off the bedroom heater.''
       = Inr \<lparr>command_text = ''Switch off the bedroom heater.'', action_type = Some Device,
               device = Some ''bedroom heater'', task = None, scheduled_time = None,
               state = Some ''off''\<rparr>
   \<and> join_space (tokenize ''turn on lights'') = ''turn'' @ '' '' @ ''on'' @ '' '' @ [] @ ''lights''
   \<and> interpret_text \<lparr>ordinal = 738000, hour = 10, minute = 30, second = 15, microsecond = 5\<rparr>
         ''turn on lights''
       = Inr \<lparr>command_text = ''turn on lights'', action_type = Some Device,
               device = Some ''lights'', task = None, scheduled_time = None, state = Some ''on''\<rparr>
   \<and> extract_device ''turn on fan and heater'' = Some ''bedroom heater''
   \<and> extract_device ''turn on fan'' = None"
proof -
  define now0 where "now0 = \<lparr>ordinal = 738000, hour = 10, minute = 30, second = 15, microsecond = 5\<rparr>"
  define p1 where "p1 = ''Please turn on the kitchen fan now!''"
  define p2 where "p2 = ''please turn on fan now''"
  define p3 where "p3 = ''hello there''"
  define p4 where "p4 = ''Switch off the bedroom heater.''"
  define p5 where "p5 = ''turn on lights''"
  define sm0 where "sm0 = \<lparr>command_text = p3, action_type = None, device = None,
      task = None, scheduled_time = None, state = None\<rparr>"
  have m1: "device_search (join_space (tokenize p1)) = Some (''on'', Some ''kitchen '', ''fan'')"
    unfolding p1_def by code_simp
  have g1: "strip ''kitchen '' = ''kitchen''" by code_simp
  have k1: "''kitchen'' \<in> {''kitchen'', ''bedroom'', ''bathroom''}" by simp
  have m2: "device_search (join_space (tokenize p2)) = Some (''on'', None, ''fan'')"
    unfolding p2_def by code_simp
  have j3: "join_space (tokenize p3) = ''hello there''" unfolding p3_def by code_simp
  have n3: "\<not> contains (join_space (tokenize p3)) ''light''"
    "\<not> contains (join_space (tokenize p3)) ''fan''"
    "\<not> contains (join_space (tokenize p3)) ''heater''"
    "\<not> contains (join_space (tokenize p3)) ''air conditioner''"
    unfolding j3 by code_simp+
  have ds3: "device_search ''hello there'' = None" by code_simp
  have ss3: "schedule_search ''hello there'' = None" by code_simp
  have i3: "interpret_text now0 p3 = Inr sm0"
    unfolding interpret_text_def Let_def j3 ds3 ss3 sm0_def by simp
  have j4: "join_space (tokenize p4)
      = ''switch'' @ '' '' @ ''off'' @ '' '' @ ''the '' @ ''bedroom'' @ '' '' @ ''heater''"
    unfolding p4_def by code_simp
  have j5: "join_space (tokenize p5) = ''turn'' @ '' '' @ ''on'' @ '' '' @ [] @ ''lights''"
    unfolding p5_def by code_simp
  have mem4: "''switch'' \<in> {''turn'', ''switch''}" "''off'' \<in> {''on'', ''off''}"
    "''the '' \<in> {[], ''the ''}" "''bedroom'' \<in> {''kitchen'', ''bedroom'', ''bathroom''}"
    "''heater'' \<in> {''light'', ''lights'', ''fan'', ''heater'', ''air conditioner''}" by simp_all
  have mem5: "''turn'' \<in> {''turn'', ''switch''}" "''on'' \<in> {''on'', ''off''}"
    "[] \<in> {[], ''the ''}"
    "''lights'' \<in> {''light'', ''lights'', ''fan'', ''heater'', ''air conditioner''}" by simp_all
  have e1: "contains ''turn on fan and heater'' ''heater''
      \<and> \<not> (contains ''turn on fan and heater'' ''living'' \<and> contains ''turn on fan and heater'' ''light'')
      \<and> \<not> (contains ''turn on fan and heater'' ''kitchen'' \<and> contains ''turn on fan and heater'' ''fan'')"
    by code_simp
  have e2: "\<not> contains ''turn on fan'' ''living'' \<and> \<not> contains ''turn on fan'' ''kitchen''
      \<and> \<not> contains ''turn on fan'' ''heater'' \<and> \<not> contains ''turn on fan'' ''light''"
    by code_simp
  note t1 = device_name_resolution[where ?text = p1 and ?sw = "''on''" and ?g3.0 = "''kitchen ''"
      and ?dev = "''fan''" and ?room = "''kitchen''" and ?now = now0]
  note t2 = device_name_resolution[where ?text = p2 and ?sw = "''on''" and ?dev = "''fan''" and ?now = now0]
  note t3 = device_name_resolution[where ?text' = p3 and ?sm = sm0 and ?now = now0]
  note t4 = device_name_resolution[where ?text = p4 and ?verb = "''switch''" and ?sw = "''off''"
      and ?art = "''the ''" and ?room = "''bedroom''" and ?dev = "''heater''" and ?now = now0]
  note t5 = device_name_resolution[where ?text = p5 and ?verb = "''turn''" and ?sw = "''on''"
      and ?art = "[]" and ?dev = "''lights''" and ?now = now0]
  note t6 = device_name_resolution[where ?t = "''turn on fan and heater''"]
  note t7 = device_name_resolution[where ?t = "''turn on fan''"]
  have pre1: "device_search (join_space (tokenize p1)) = Some (''on'', Some ''kitchen '', ''fan'')
      \<and> strip ''kitchen '' = ''kitchen'' \<and> ''kitchen'' \<in> {''kitchen'', ''bedroom'', ''bathroom''}"
    by (intro conjI m1 g1 k1)
  from t1[THEN conjunct1, THEN mp, OF pre1]
  have r1: "interpret_text now0 p1
       = Inr \<lparr>command_text = p1, action_type = Some Device,
               device = Some (''kitchen'' @ '' '' @ ''fan''), task = None, scheduled_time = None,
               state = Some ''on''\<rparr>" ..
  from t2[THEN conjunct2, THEN conjunct1, THEN mp, OF m2]
  have r2: "interpret_text now0 p2
       = Inr \<lparr>command_text = p2, action_type = Some Device,
               device = Some ''fan'', task = None, scheduled_time = None, state = Some ''on''\<rparr>" ..
  have pre3: "\<not> contains (join_space (tokenize p3)) ''light'' \<and> \<not> contains (join_space (tokenize p3)) ''fan''
       \<and> \<not> contains (join_space (tokenize p3)) ''heater''
       \<and> \<not> contains (join_space (tokenize p3)) ''air conditioner''
       \<and> interpret_text now0 p3 = Inr sm0"
    by (intro conjI n3 i3)
  from t3[THEN conjunct2, THEN conjunct2, THEN conjunct1, THEN mp, OF pre3]
  have r3: "device sm0 = None" ..
  have pre4: "join_space (tokenize p4) = ''switch'' @ '' '' @ ''off'' @ '' '' @ ''the '' @ ''bedroom'' @ '' '' @ ''heater''
       \<and> ''switch'' \<in> {''turn'', ''switch''} \<and> ''off'' \<in> {''on'', ''off''} \<and> ''the '' \<in> {[], ''the ''}
       \<and> ''bedroom'' \<in> {''kitchen'', ''bedroom'', ''bathroom''}
       \<and> ''heater'' \<in> {''light'', ''lights'', ''fan'', ''heater'', ''air conditioner''}"
    by (intro conjI j4 mem4)
  from t4[THEN conjunct2, THEN conjunct2, THEN conjunct2, THEN conjunct1, THEN mp, OF pre4]
  have r4: "interpret_text now0 p4
       = Inr \<lparr>command_text = p4, action_type = Some Device,
               device = Some (''bedroom'' @ '' '' @ ''heater''), task = None, scheduled_time = None,
               state = Some ''off''\<rparr>" .
  have pre5: "join_space (tokenize p5) = ''turn'' @ '' '' @ ''on'' @ '' '' @ [] @ ''lights''
       \<and> ''turn'' \<in> {''turn'', ''switch''} \<and> ''on'' \<in> {''on'', ''off''} \<and> [] \<in> {[], ''the ''}
       \<and> ''lights'' \<in> {''light'', ''lights'', ''fan'', ''heater'', ''air conditioner''}"
    by (intro conjI j5 mem5)
  from t5[THEN conjunct2, THEN conjunct2, THEN conjunct2, THEN conjunct2, THEN conjunct1, THEN mp, OF pre5]
  have r5: "interpret_text now0 p5
       = Inr \<lparr>command_text = p5, action_type = Some Device,
               device = Some ''lights'', task = None, scheduled_time = None, state = Some ''on''\<rparr>" .
  from t6[THEN conjunct2, THEN conjunct2, THEN conjunct2, THEN conjunct2, THEN conjunct2] e1
  have r6: "extract_device ''turn on fan and heater'' = Some ''bedroom heater''" by simp
  from t7[THEN conjunct2, THEN conjunct2, THEN conjunct2, THEN conjunct2, THEN conjunct2] e2
  have r7: "extract_device ''turn on fan'' = None" by simp
  have q1: "interpret_text now0 p1
       = Inr \<lparr>command_text = p1, action_type = Some Device,
               device = Some ''kitchen fan'', task = None, scheduled_time = None,
               state = Some ''on''\<rparr>" using r1 by simp
  have q4: "interpret_text now0 p4
       = Inr \<lparr>command_text = p4, action_type = Some Device,
               device = Some ''bedroom heater'', task = None, scheduled_time = None,
               state = Some ''off''\<rparr>" using r4 by simp
  have "device_search (join_space (tokenize p1)) = Some (''on'', Some ''kitchen '', ''fan'')
   \<and> strip ''kitchen '' = ''kitchen''
   \<and> interpret_text now0 p1
       = Inr \<lparr>command_text = p1, action_type = Some Device,
               device = Some ''kitchen fan'', task = None, scheduled_time = None, state = Some ''on''\<rparr>
   \<and> device_search (join_space (tokenize p2)) = Some (''on'', None, ''fan'')
   \<and> interpret_text now0 p2
       = Inr \<lparr>command_text = p2, action_type = Some Device,
               device = Some ''fan'', task = None, scheduled_time = None, state = Some ''on''\<rparr>
   \<and> \<not> contains (join_space (tokenize p3)) ''light''
   \<and> \<not> contains (join_space (tokenize p3)) ''fan''
   \<and> \<not> contains (join_space (tokenize p3)) ''heater''
   \<and> \<not> contains (join_space (tokenize p3)) ''air conditioner''
   \<and> interpret_text now0 p3 = Inr sm0
   \<and> join_space (tokenize p4)
       = ''switch'' @ '' '' @ ''off'' @ '' '' @ ''the '' @ ''bedroom'' @ '' '' @ ''heater''
   \<and> interpret_text now0 p4
       = Inr \<lparr>command_text = p4, action_type = Some Device,
               device = Some ''bedroom heater'', task = None, scheduled_time = None,
               state = Some ''off''\<rparr>
   \<and> join_space (tokenize p5) = ''turn'' @ '' '' @ ''on'' @ '' '' @ [] @ ''lights''
   \<and> interpret_text now0 p5
       = Inr \<lparr>command_text = p5, action_type = Some Device,
               device = Some ''lights'', task = None, scheduled_time = None, state = Some ''on''\<rparr>
   \<and> extract_device ''turn on fan and heater'' = Some ''bedroom heater''
   \<and> extract_device ''turn on fan'' = None"
    by (intro conjI m1 g1 q1 m2 r2 n3 i3 j4 q4 j5 r5 r6 r7)
  then show ?thesis unfolding now0_def p1_def p2_def p3_def p4_def p5_def sm0_def .
qed

end
